theory Spec2Isabelle
  imports Complex_Main "HOL-Library.AList" "HOL-Library.Product_Lexorder"
begin

section \<open>Strings, numbers and timestamps\<close>

text \<open>
  A Python \<open>str\<close> is modelled as a \<open>string\<close> whose characters are the code points
  U+0000 to U+00FF (every literal of \<^verbatim>\<open>loop.py\<close> lies in that range; the micro sign
  of one log line is U+00B5).
\<close>

definition lower_char :: "char \<Rightarrow> char" where
  "lower_char c =
     (let n = (of_char c :: nat)
      in if (65 \<le> n \<and> n \<le> 90) \<or> (192 \<le> n \<and> n \<le> 222 \<and> n \<noteq> 215)
         then char_of (n + 32) else c)"

text \<open>\<^verbatim>\<open>str.lower()\<close> on that range: A..Z and the capital letters U+00C0..U+00DE
  (without the multiplication sign U+00D7) move up by 32.\<close>

definition lower :: "string \<Rightarrow> string" where
  "lower s = map lower_char s"

definition digit_char :: "nat \<Rightarrow> char" where
  "digit_char n = char_of (48 + n mod 10)"

definition is_digit :: "char \<Rightarrow> bool" where
  "is_digit c = (48 \<le> (of_char c :: nat) \<and> (of_char c :: nat) \<le> 57)"

text \<open>Decimal rendering of a natural number, without padding.\<close>

fun dec :: "nat \<Rightarrow> string" where
  "dec n = (if n < 10 then [digit_char n] else dec (n div 10) @ [digit_char n])"

declare dec.simps [simp del]

text \<open>\<^verbatim>\<open>str(i)\<close> for a Python int.\<close>

definition str_int :: "int \<Rightarrow> string" where
  "str_int i = (if i < 0 then CHR ''-'' # dec (nat (- i)) else dec (nat i))"

text \<open>\<^verbatim>\<open>repr\<close> of a pair of ints, as \<^verbatim>\<open>print\<close> and f-strings show a resolution.\<close>

definition repr_pair :: "int \<times> int \<Rightarrow> string" where
  "repr_pair p = ''('' @ str_int (fst p) @ '', '' @ str_int (snd p) @ '')''"

text \<open>A two-digit, zero-padded field (\<^verbatim>\<open>%m %d %H %M %S\<close>).\<close>

definition pad2 :: "nat \<Rightarrow> string" where
  "pad2 n = (if n < 10 then CHR ''0'' # dec n else dec n)"

text \<open>A naive local \<^verbatim>\<open>datetime\<close>, as \<^verbatim>\<open>datetime.now()\<close> returns it.\<close>

record datetime =
  year :: nat
  month :: nat
  day :: nat
  hour :: nat
  minute :: nat
  second :: nat
  microsecond :: nat

text \<open>The ranges the \<^verbatim>\<open>datetime\<close> type enforces on its fields.\<close>

definition wf_datetime :: "datetime \<Rightarrow> bool" where
  "wf_datetime d =
     (1 \<le> year d \<and> year d \<le> 9999 \<and> 1 \<le> month d \<and> month d \<le> 12 \<and>
      1 \<le> day d \<and> day d \<le> 31 \<and> hour d < 24 \<and> minute d < 60 \<and> second d < 60 \<and>
      microsecond d < 1000000)"



text \<open>The directives of \<^verbatim>\<open>strftime\<close> that the program uses. \<^verbatim>\<open>%Y\<close> is the year in
  decimal as the C library prints it (four digits from the year 1000 on).\<close>

definition directive :: "char \<Rightarrow> datetime \<Rightarrow> string" where
  "directive x d =
     (if x = CHR ''Y'' then dec (year d)
      else if x = CHR ''m'' then pad2 (month d)
      else if x = CHR ''d'' then pad2 (day d)
      else if x = CHR ''H'' then pad2 (hour d)
      else if x = CHR ''M'' then pad2 (minute d)
      else if x = CHR ''S'' then pad2 (second d)
      else [CHR ''%'', x])"

fun strftime :: "string \<Rightarrow> datetime \<Rightarrow> string" where
  "strftime [] d = []"
| "strftime [c] d = [c]"
| "strftime (c # x # cs) d =
     (if c = CHR ''%'' then directive x d @ strftime cs d else c # strftime (x # cs) d)"

declare strftime.simps [simp del]

text \<open>\<^verbatim>\<open>os.path.join(a, b)\<close> of \<^verbatim>\<open>posixpath\<close>, for two components.\<close>

definition os_path_join :: "string \<Rightarrow> string \<Rightarrow> string" where
  "os_path_join a b =
     (if b \<noteq> [] \<and> hd b = CHR ''/'' then b
      else if a = [] \<or> last a = CHR ''/'' then a @ b
      else a @ ''/'' @ b)"

text \<open>The pattern language of the specification: the letters Y, M, D, H, S of a pattern
  stand for one decimal digit each, every other character for itself.\<close>

fun matches_format :: "string \<Rightarrow> string \<Rightarrow> bool" where
  "matches_format [] [] = True"
| "matches_format (p # ps) (c # cs) =
     ((if p \<in> set ''YMDHS'' then is_digit c else c = p) \<and> matches_format ps cs)"
| "matches_format _ _ = False"

section \<open>The environment: exceptions, clock, filesystem, trace\<close>

text \<open>An exception is the operator's interrupt or any other fault, named by its Python
  class.\<close>

datatype exn = KeyboardInterrupt | Fault string

text \<open>The members of \<^verbatim>\<open>libcamera.controls.AwbModeEnum\<close>.\<close>

datatype AwbModeEnum =
  Auto | Incandescent | Tungsten | Fluorescent | Indoor | Daylight | Cloudy | Custom

text \<open>The values a control takes in this program.\<close>

datatype control_value = VInt int | VBool bool | VFloat real | VAwbMode AwbModeEnum

text \<open>A \<^verbatim>\<open>dict\<close> with string keys, in insertion order; \<^verbatim>\<open>d[k] = v\<close> is
  \<^const>\<open>AList.update\<close>.\<close>

type_synonym controls = "(string \<times> control_value) list"

text \<open>What \<^verbatim>\<open>create_still_configuration(main={"size": ...})\<close> returns, as far as the
  program determines it.\<close>

record still_configuration =
  main_size :: "int \<times> int"

text \<open>Every call that leaves the program: the camera driver, the filesystem, the clock,
  the console and \<^verbatim>\<open>time.sleep\<close>.\<close>

datatype event =
    Picamera2
  | CreateStillConfiguration "int \<times> int"
  | Configure still_configuration
  | SetControls controls
  | Start
  | CaptureFile string
  | Stop
  | DatetimeNow datetime
  | MakeDirs string
  | Sleep int
  | Print string

datatype node = Dir | File

type_synonym filesystem = "(string \<times> node) list"

text \<open>One step of the environment: when the program makes its next external call the
  wall clock reads \<open>clock\<close>, and the call raises \<open>raised\<close> (an interrupt arrives, the
  driver or the disk fails) or returns.\<close>

record tick =
  raised :: "exn option"
  clock :: datetime

text \<open>The world of a run: the environment's behaviour at the calls to come, the
  filesystem, and the calls made so far (in order).\<close>

record world =
  script :: "tick list"
  fs :: filesystem
  trace :: "event list"

text \<open>A statement returns a value, raises, or is still running when the observed
  behaviour of the environment ends (\<open>script\<close> is used up).\<close>

datatype 'a result = Return 'a | Raise exn | Running

type_synonym 'a prog = "world \<Rightarrow> 'a result \<times> world"

definition return :: "'a \<Rightarrow> 'a prog" where
  "return x w = (Return x, w)"

definition and_then :: "'a prog \<Rightarrow> ('a \<Rightarrow> 'b prog) \<Rightarrow> 'b prog" where
  "and_then m k w =
     (case m w of
        (Return x, w') \<Rightarrow> k x w'
      | (Raise e, w') \<Rightarrow> (Raise e, w')
      | (Running, w') \<Rightarrow> (Running, w'))"

text \<open>An external call without a result. The call is recorded when it is made, also
  when it then raises.\<close>

definition ext_call :: "event \<Rightarrow> unit prog" where
  "ext_call ev w =
     (case script w of
        [] \<Rightarrow> (Running, w)
      | t # ts \<Rightarrow>
          (let w' = w\<lparr>script := ts, trace := trace w @ [ev]\<rparr>
           in case raised t of Some e \<Rightarrow> (Raise e, w') | None \<Rightarrow> (Return (), w')))"

definition print :: "string \<Rightarrow> unit prog" where
  "print s = ext_call (Print s)"

text \<open>\<^verbatim>\<open>datetime.now()\<close>: the reading is recorded when the call returns.\<close>

definition datetime_now :: "datetime prog" where
  "datetime_now w =
     (case script w of
        [] \<Rightarrow> (Running, w)
      | t # ts \<Rightarrow>
          (case raised t of
             Some e \<Rightarrow> (Raise e, w\<lparr>script := ts\<rparr>)
           | None \<Rightarrow>
               (Return (clock t), w\<lparr>script := ts, trace := trace w @ [DatetimeNow (clock t)]\<rparr>)))"

text \<open>The intermediate directories of a path: its proper prefixes that end before a
  separator.\<close>

definition ancestors :: "string \<Rightarrow> string list" where
  "ancestors p = [take i p. i \<leftarrow> [1..<length p], p ! i = CHR ''/'']"


text \<open>\<^verbatim>\<open>os.makedirs(p, exist_ok=True)\<close> on the filesystem: a regular file in the way is an
  error, an existing directory is not; the path and its intermediate directories
  exist afterwards.\<close>

definition makedirs_fs :: "string \<Rightarrow> filesystem \<Rightarrow> string + filesystem" where
  "makedirs_fs p f =
     (if p = [] then Inl ''FileNotFoundError''
      else if map_of f p = Some File then Inl ''FileExistsError''
      else if list_ex (\<lambda>a. map_of f a = Some File) (ancestors p) then Inl ''NotADirectoryError''
      else Inr (foldr (\<lambda>q. AList.update q Dir) (ancestors p @ [p]) f))"

definition os_makedirs :: "string \<Rightarrow> unit prog" where
  "os_makedirs p w =
     (case script w of
        [] \<Rightarrow> (Running, w)
      | t # ts \<Rightarrow>
          (let w' = w\<lparr>script := ts, trace := trace w @ [MakeDirs p]\<rparr>
           in case raised t of
                Some e \<Rightarrow> (Raise e, w')
              | None \<Rightarrow>
                  (case makedirs_fs p (fs w') of
                     Inl err \<Rightarrow> (Raise (Fault err), w')
                   | Inr f \<Rightarrow> (Return (), w'\<lparr>fs := f\<rparr>))))"

section \<open>The program\<close>

text \<open>\<^verbatim>\<open>create_output_directory\<close> (lines 9 to 19).\<close>

definition create_output_directory :: "string \<Rightarrow> string prog" where
  "create_output_directory base_path =
     and_then datetime_now (\<lambda>now.
       let timestamp = strftime ''%Y%m%d_%H%M%S'' now;
           directory = os_path_join base_path timestamp
       in and_then (os_makedirs directory) (\<lambda>_. return directory))"

text \<open>The configuration section (lines 25 to 80). The module-level constants are
  collected in one record and passed to \<open>main\<close>, so that the claims about every
  settings record can be stated; \<open>module_config\<close> holds the values of the source.\<close>

record auto_settings =
  auto_resolution :: "int \<times> int"

record manual_settings =
  resolution :: "int \<times> int"
  brightness :: int
  contrast :: int
  saturation :: int
  sharpness :: int
  exposure_time :: "int option"
  white_balance :: string

record config =
  output_base_path :: string
  interval_seconds :: int
  fully_auto_mode :: bool
  auto :: auto_settings
  manual :: manual_settings

definition OUTPUT_BASE_PATH :: string where
  "OUTPUT_BASE_PATH = ''/media/nagli/aed29726-d3de-4f78-8450-0f34bb1faab11''"

definition INTERVAL_SECONDS :: int where
  "INTERVAL_SECONDS = 10"

definition FULLY_AUTO_MODE :: bool where
  "FULLY_AUTO_MODE = True"

definition AUTO_SETTINGS :: auto_settings where
  "AUTO_SETTINGS = \<lparr>auto_resolution = (1920, 1080)\<rparr>"

definition MANUAL_SETTINGS :: manual_settings where
  "MANUAL_SETTINGS =
     \<lparr>resolution = (640, 480), brightness = 50, contrast = 0, saturation = 0,
      sharpness = 0, exposure_time = Some 1000, white_balance = ''auto''\<rparr>"

definition AWB_MODE_MAP :: "(string \<times> AwbModeEnum) list" where
  "AWB_MODE_MAP =
     [(''auto'', Auto), (''incandescent'', Incandescent), (''fluorescent'', Fluorescent),
      (''daylight'', Daylight), (''cloudy'', Cloudy)]"

definition module_config :: config where
  "module_config =
     \<lparr>output_base_path = OUTPUT_BASE_PATH, interval_seconds = INTERVAL_SECONDS,
      fully_auto_mode = FULLY_AUTO_MODE, auto = AUTO_SETTINGS, manual = MANUAL_SETTINGS\<rparr>"

text \<open>The controls dictionary as first built (lines 109 to 114).\<close>

definition base_controls :: "manual_settings \<Rightarrow> controls" where
  "base_controls ms =
     [(''Brightness'', VInt (brightness ms)), (''Contrast'', VInt (contrast ms)),
      (''Saturation'', VInt (saturation ms)), (''Sharpness'', VInt (sharpness ms))]"

text \<open>Exposure (lines 119 to 133): the updated dictionary and the lines printed after
  the updates, in order.\<close>

definition handle_exposure :: "manual_settings \<Rightarrow> controls \<Rightarrow> controls \<times> string list" where
  "handle_exposure ms controls =
     (case exposure_time ms of
        Some t \<Rightarrow>
          (AList.update ''AnalogueGain'' (VFloat 1.0)
             (AList.update ''ExposureTime'' (VInt t)
                (AList.update ''AeEnable'' (VBool False) controls)),
           [''[INFO] Using manual exposure: '' @ str_int t @ [CHR '' '', CHR 0xB5, CHR ''s''],
            ''[INFO] Locked AnalogueGain at 1.0 for minimal sensor amplification.''])
      | None \<Rightarrow>
          (AList.update ''AeEnable'' (VBool True) controls,
           [''[INFO] Auto exposure enabled.'']))"

text \<open>White balance (lines 138 to 152).\<close>

definition handle_white_balance :: "manual_settings \<Rightarrow> controls \<Rightarrow> controls \<times> string list" where
  "handle_white_balance ms controls =
     (let wb_mode_str = lower (white_balance ms)
      in case map_of AWB_MODE_MAP wb_mode_str of
           Some mode \<Rightarrow>
             (if wb_mode_str = ''auto''
              then (AList.update ''AwbEnable'' (VBool True) controls,
                    [''[INFO] Auto white balance enabled.''])
              else (AList.update ''AwbMode'' (VAwbMode mode)
                      (AList.update ''AwbEnable'' (VBool False) controls),
                    [''[INFO] White balance mode set to '' @ [CHR 0x27] @ wb_mode_str
                       @ [CHR 0x27] @ ''.'']))
         | None \<Rightarrow>
             (AList.update ''AwbEnable'' (VBool True) controls,
              [''[WARN] Unrecognized white_balance '' @ [CHR 0x27] @ wb_mode_str
                 @ [CHR 0x27] @ '', defaulting to auto WB.'']))"

text \<open>The dictionary that reaches \<^verbatim>\<open>set_controls\<close> (line 155).\<close>

definition resolved_controls :: "manual_settings \<Rightarrow> controls" where
  "resolved_controls ms =
     fst (handle_white_balance ms (fst (handle_exposure ms (base_controls ms))))"

fun print_lines :: "string list \<Rightarrow> unit prog" where
  "print_lines [] = return ()"
| "print_lines (l # ls) = and_then (print l) (\<lambda>_. print_lines ls)"

definition create_still_configuration :: "int \<times> int \<Rightarrow> still_configuration prog" where
  "create_still_configuration sz =
     and_then (ext_call (CreateStillConfiguration sz)) (\<lambda>_. return \<lparr>main_size = sz\<rparr>)"

text \<open>\<^verbatim>\<open>str\<close> of the optional exposure time in the settings log.\<close>

definition str_exposure :: "int option \<Rightarrow> string" where
  "str_exposure e = (case e of None \<Rightarrow> ''None'' | Some t \<Rightarrow> str_int t)"

text \<open>The settings log of the manual branch (lines 158 to 167).\<close>

definition manual_log :: "manual_settings \<Rightarrow> string list" where
  "manual_log ms =
     [''[INFO] Camera configured for MANUAL mode with these settings:'',
      ''       - Resolution:      '' @ repr_pair (resolution ms),
      ''       - Brightness:      '' @ str_int (brightness ms),
      ''       - Contrast:        '' @ str_int (contrast ms),
      ''       - Saturation:      '' @ str_int (saturation ms),
      ''       - Sharpness:       '' @ str_int (sharpness ms),
      ''       - ExposureTime:    '' @ str_exposure (exposure_time ms),
      ''       - White Balance:   '' @ white_balance ms]
     @ (if exposure_time ms \<noteq> None then [''       - AnalogueGain:    1.0 (locked)''] else [])"

text \<open>The two branches of the configuration (lines 92 to 167).\<close>

definition configure_auto :: "auto_settings \<Rightarrow> unit prog" where
  "configure_auto a =
     and_then (create_still_configuration (auto_resolution a)) (\<lambda>auto_config.
     and_then (ext_call (Configure auto_config)) (\<lambda>_.
     print_lines
       [''[INFO] Camera configured for FULLY AUTO mode.'',
        ''       - Resolution: '' @ repr_pair (auto_resolution a),
        ''       - Exposure, White Balance, etc. are automatic.'']))"

definition configure_manual :: "manual_settings \<Rightarrow> unit prog" where
  "configure_manual ms =
     and_then (create_still_configuration (resolution ms)) (\<lambda>manual_config.
     and_then (ext_call (Configure manual_config)) (\<lambda>_.
     let controls = base_controls ms;
         (controls, exposure_lines) = handle_exposure ms controls
     in and_then (print_lines exposure_lines) (\<lambda>_.
        let (controls, wb_lines) = handle_white_balance ms controls
        in and_then (print_lines wb_lines) (\<lambda>_.
           and_then (ext_call (SetControls controls)) (\<lambda>_.
           print_lines (manual_log ms))))))"

text \<open>Lines 87 to 176: open and configure the camera, start it, create the output
  directory. The result is the directory.\<close>

definition startup :: "config \<Rightarrow> string prog" where
  "startup cfg =
     and_then (ext_call Picamera2) (\<lambda>picam.
     and_then (if fully_auto_mode cfg then configure_auto (auto cfg)
               else configure_manual (manual cfg)) (\<lambda>_.
     and_then (ext_call Start) (\<lambda>_.
     and_then (print ''[INFO] Camera started.'') (\<lambda>_.
     and_then (create_output_directory (output_base_path cfg)) (\<lambda>output_directory.
     and_then (print (''[INFO] Images will be saved in: '' @ output_directory)) (\<lambda>_.
     return output_directory))))))"

text \<open>One pass through the body of \<^verbatim>\<open>while True\<close> (lines 184 to 193).\<close>

definition capture_iteration :: "config \<Rightarrow> string \<Rightarrow> unit prog" where
  "capture_iteration cfg output_directory =
     and_then datetime_now (\<lambda>now.
     let timestamp_str = strftime ''image_%Y%m%d_%H%M%S.jpg'' now;
         file_path = os_path_join output_directory timestamp_str
     in and_then (print (''[CAPTURE] Saving image: '' @ file_path)) (\<lambda>_.
        and_then (ext_call (CaptureFile file_path)) (\<lambda>_.
        ext_call (Sleep (interval_seconds cfg)))))"

lemma ext_call_consumes:
  "ext_call ev w = (Return x, w') \<Longrightarrow> length (script w') < length (script w)"
  by (auto simp: ext_call_def Let_def split: list.splits option.splits)

lemma capture_iteration_consumes:
  assumes "capture_iteration cfg dir w = (Return x, w')"
  shows "length (script w') < length (script w)"
proof -
  obtain t ts where s: "script w = t # ts"
    using assms
    by (cases "script w") (auto simp: capture_iteration_def and_then_def datetime_now_def)
  have "length (script w') \<le> length ts"
    using assms s
    by (auto simp: capture_iteration_def and_then_def datetime_now_def print_def ext_call_def
        Let_def split: list.splits option.splits)
  then show ?thesis using s by simp
qed

text \<open>\<^verbatim>\<open>while True\<close> (line 183): the loop has no exit of its own; it ends when a call
  raises, and runs on for as long as the environment is observed.\<close>

function capture_loop :: "config \<Rightarrow> string \<Rightarrow> unit prog" where
  "capture_loop cfg output_directory w =
     (case capture_iteration cfg output_directory w of
        (Return _, w') \<Rightarrow> capture_loop cfg output_directory w'
      | (Raise e, w') \<Rightarrow> (Raise e, w')
      | (Running, w') \<Rightarrow> (Running, w'))"
  by pat_completeness auto
termination
  by (relation "measure (\<lambda>(cfg, dir, w). length (script w))")
    (auto dest: capture_iteration_consumes [OF sym])

declare capture_loop.simps [simp del]

text \<open>\<^verbatim>\<open>try ... except KeyboardInterrupt ... finally\<close> (lines 181 to 202): the handler
  runs when the body raises the interrupt, the final block runs however the body and
  the handler ended, and an exception of the final block replaces the pending one.\<close>

definition try_except_finally :: "unit prog \<Rightarrow> unit prog \<Rightarrow> unit prog \<Rightarrow> unit prog" where
  "try_except_finally body handler final w =
     (case body w of
        (Running, w1) \<Rightarrow> (Running, w1)
      | (r1, w1) \<Rightarrow>
          (case (if r1 = Raise KeyboardInterrupt then handler w1 else (r1, w1)) of
             (Running, w2) \<Rightarrow> (Running, w2)
           | (r2, w2) \<Rightarrow>
               (case final w2 of
                  (Return _, w3) \<Rightarrow> (r2, w3)
                | (r3, w3) \<Rightarrow> (r3, w3))))"

text \<open>The body of the \<^verbatim>\<open>try\<close> statement (lines 182 to 193).\<close>

definition try_body :: "config \<Rightarrow> string \<Rightarrow> unit prog" where
  "try_body cfg output_directory =
     and_then (print (''[INFO] Starting image capture. Press Ctrl+C to stop.'' @ [CHR 0x0A]))
       (\<lambda>_. capture_loop cfg output_directory)"

definition interrupt_handler :: "unit prog" where
  "interrupt_handler = print (CHR 0x0A # ''[INFO] Stopping image capture...'')"

definition finally_block :: "unit prog" where
  "finally_block =
     and_then (ext_call Stop) (\<lambda>_. print ''[INFO] Camera stopped. Exiting.'')"

text \<open>Lines 181 to 202.\<close>

definition capture_session :: "config \<Rightarrow> string \<Rightarrow> unit prog" where
  "capture_session cfg output_directory =
     try_except_finally (try_body cfg output_directory) interrupt_handler finally_block"

text \<open>\<^verbatim>\<open>main\<close> (lines 82 to 202).\<close>

definition main :: "config \<Rightarrow> unit prog" where
  "main cfg = and_then (startup cfg) (capture_session cfg)"

section \<open>Reasoning about runs\<close>

text \<open>A monitor reads the calls of a run in order; \<open>None\<close> is a call it rejects.\<close>

fun run :: "('s \<Rightarrow> event \<Rightarrow> 's option) \<Rightarrow> 's \<Rightarrow> event list \<Rightarrow> 's option" where
  "run \<delta> s [] = Some s"
| "run \<delta> s (e # es) = (case \<delta> s e of None \<Rightarrow> None | Some s' \<Rightarrow> run \<delta> s' es)"

text \<open>An assumption on the environment: every step to come satisfies \<open>E\<close>.\<close>

definition env_ok :: "(tick \<Rightarrow> bool) \<Rightarrow> world \<Rightarrow> bool" where
  "env_ok E w = list_all E (script w)"

definition can_raise :: "(tick \<Rightarrow> bool) \<Rightarrow> exn \<Rightarrow> bool" where
  "can_raise E e = (\<exists>t. E t \<and> raised t = Some e)"

definition can_read :: "(tick \<Rightarrow> bool) \<Rightarrow> datetime \<Rightarrow> bool" where
  "can_read E d = (\<exists>t. E t \<and> raised t = None \<and> clock t = d)"

text \<open>\<open>steps E \<delta> s p Q\<close>: in every environment that satisfies \<open>E\<close>, the calls that
  statement \<open>p\<close> adds to the trace take monitor \<open>\<delta>\<close> from state \<open>s\<close> to a state that,
  with the result of \<open>p\<close>, satisfies \<open>Q\<close>.\<close>

definition steps ::
  "(tick \<Rightarrow> bool) \<Rightarrow> ('s \<Rightarrow> event \<Rightarrow> 's option) \<Rightarrow> 's \<Rightarrow> 'a prog \<Rightarrow>
     ('a result \<Rightarrow> 's \<Rightarrow> bool) \<Rightarrow> bool" where
  "steps E \<delta> s p Q =
     (\<forall>w. env_ok E w \<longrightarrow>
        env_ok E (snd (p w)) \<and>
        (\<exists>evs s'. trace (snd (p w)) = trace w @ evs \<and> run \<delta> s evs = Some s' \<and>
           Q (fst (p w)) s'))"

lemma run_append:
  "run \<delta> s (xs @ ys) = (case run \<delta> s xs of None \<Rightarrow> None | Some s' \<Rightarrow> run \<delta> s' ys)"
  by (induction xs arbitrary: s) (auto split: option.splits)

lemma stepsD:
  "steps E \<delta> s p Q \<Longrightarrow> env_ok E w \<Longrightarrow>
     env_ok E (snd (p w)) \<and>
     (\<exists>evs s'. trace (snd (p w)) = trace w @ evs \<and> run \<delta> s evs = Some s' \<and>
        Q (fst (p w)) s')"
  by (simp add: steps_def)

lemma steps_return: "Q (Return x) s \<Longrightarrow> steps E \<delta> s (return x) Q"
  by (simp add: steps_def return_def)

lemma steps_ext_call:
  assumes "\<delta> s ev = Some s'" "Q (Return ()) s'" "\<And>e. can_raise E e \<Longrightarrow> Q (Raise e) s'"
    "Q Running s"
  shows "steps E \<delta> s (ext_call ev) Q"
  unfolding steps_def
proof (intro allI impI)
  fix w assume ok: "env_ok E w"
  show "env_ok E (snd (ext_call ev w)) \<and>
        (\<exists>evs s'. trace (snd (ext_call ev w)) = trace w @ evs \<and> run \<delta> s evs = Some s' \<and>
           Q (fst (ext_call ev w)) s')"
  proof (cases "script w")
    case Nil
    then show ?thesis using ok assms(4) by (simp add: ext_call_def)
  next
    case (Cons t ts)
    have t: "E t" and ts: "list_all E ts" using ok Cons by (simp_all add: env_ok_def)
    show ?thesis
    proof (cases "raised t")
      case None
      then show ?thesis using Cons ts assms(1,2)
        by (simp add: ext_call_def env_ok_def Let_def)
    next
      case (Some e)
      then have "can_raise E e" using t by (auto simp: can_raise_def)
      then show ?thesis using Cons Some ts assms(1,3)
        by (simp add: ext_call_def env_ok_def Let_def)
    qed
  qed
qed

lemma steps_print:
  assumes "\<delta> s (Print l) = Some s'" "Q (Return ()) s'" "\<And>e. can_raise E e \<Longrightarrow> Q (Raise e) s'"
    "Q Running s"
  shows "steps E \<delta> s (print l) Q"
  unfolding print_def using assms by (rule steps_ext_call)

lemma steps_datetime_now:
  assumes "\<And>d. can_read E d \<Longrightarrow> \<exists>s'. \<delta> s (DatetimeNow d) = Some s' \<and> Q (Return d) s'"
    "\<And>e. can_raise E e \<Longrightarrow> Q (Raise e) s" "Q Running s"
  shows "steps E \<delta> s datetime_now Q"
  unfolding steps_def
proof (intro allI impI)
  fix w assume ok: "env_ok E w"
  show "env_ok E (snd (datetime_now w)) \<and>
        (\<exists>evs s'. trace (snd (datetime_now w)) = trace w @ evs \<and> run \<delta> s evs = Some s' \<and>
           Q (fst (datetime_now w)) s')"
  proof (cases "script w")
    case Nil
    then show ?thesis using ok assms(3) by (simp add: datetime_now_def)
  next
    case (Cons t ts)
    have t: "E t" and ts: "list_all E ts" using ok Cons by (simp_all add: env_ok_def)
    show ?thesis
    proof (cases "raised t")
      case None
      then have "can_read E (clock t)" using t by (auto simp: can_read_def)
      from assms(1) [OF this] obtain s' where
        "\<delta> s (DatetimeNow (clock t)) = Some s'" "Q (Return (clock t)) s'" by blast
      then show ?thesis using Cons None ts
        by (simp add: datetime_now_def env_ok_def)
    next
      case (Some e)
      then have "can_raise E e" using t by (auto simp: can_raise_def)
      then show ?thesis using Cons Some ts assms(2)
        by (simp add: datetime_now_def env_ok_def)
    qed
  qed
qed

lemma steps_os_makedirs:
  assumes "\<delta> s (MakeDirs p) = Some s'" "Q (Return ()) s'"
    "\<And>e. can_raise E e \<Longrightarrow> Q (Raise e) s'" "\<And>err. Q (Raise (Fault err)) s'" "Q Running s"
  shows "steps E \<delta> s (os_makedirs p) Q"
  unfolding steps_def
proof (intro allI impI)
  fix w assume ok: "env_ok E w"
  show "env_ok E (snd (os_makedirs p w)) \<and>
        (\<exists>evs s'. trace (snd (os_makedirs p w)) = trace w @ evs \<and> run \<delta> s evs = Some s' \<and>
           Q (fst (os_makedirs p w)) s')"
  proof (cases "script w")
    case Nil
    then show ?thesis using ok assms(5) by (simp add: os_makedirs_def)
  next
    case (Cons t ts)
    have t: "E t" and ts: "list_all E ts" using ok Cons by (simp_all add: env_ok_def)
    show ?thesis
    proof (cases "raised t")
      case None
      then show ?thesis using Cons ts assms(1,2,4)
        by (simp add: os_makedirs_def env_ok_def Let_def split: sum.split)
    next
      case (Some e)
      then have "can_raise E e" using t by (auto simp: can_raise_def)
      then show ?thesis using Cons Some ts assms(1,3)
        by (simp add: os_makedirs_def env_ok_def Let_def)
    qed
  qed
qed

lemma steps_and_then:
  assumes m: "steps E \<delta> s m
      (\<lambda>r s1. case r of Return x \<Rightarrow> steps E \<delta> s1 (k x) Q
                | Raise e \<Rightarrow> Q (Raise e) s1 | Running \<Rightarrow> Q Running s1)"
  shows "steps E \<delta> s (and_then m k) Q"
  unfolding steps_def
proof (intro allI impI)
  fix w assume ok: "env_ok E w"
  obtain r w1 where mw: "m w = (r, w1)" by (cases "m w")
  from stepsD [OF m ok] mw obtain evs s1 where
    ok1: "env_ok E w1" and tr: "trace w1 = trace w @ evs" and
    rn: "run \<delta> s evs = Some s1" and
    q: "case r of Return x \<Rightarrow> steps E \<delta> s1 (k x) Q
               | Raise e \<Rightarrow> Q (Raise e) s1 | Running \<Rightarrow> Q Running s1"
    by auto
  show "env_ok E (snd (and_then m k w)) \<and>
        (\<exists>evs s'. trace (snd (and_then m k w)) = trace w @ evs \<and> run \<delta> s evs = Some s' \<and>
           Q (fst (and_then m k w)) s')"
  proof (cases r)
    case (Return x)
    with q have "steps E \<delta> s1 (k x) Q" by simp
    from stepsD [OF this ok1] obtain evs2 s2 where
      a: "env_ok E (snd (k x w1))" and b: "trace (snd (k x w1)) = trace w1 @ evs2" and
      c: "run \<delta> s1 evs2 = Some s2" and d: "Q (fst (k x w1)) s2"
      by blast
    have eq: "and_then m k w = k x w1" using mw Return by (simp add: and_then_def)
    have "run \<delta> s (evs @ evs2) = Some s2" using rn c by (simp add: run_append)
    moreover have "trace (snd (k x w1)) = trace w @ (evs @ evs2)" using b tr by simp
    ultimately show ?thesis unfolding eq using a d by blast
  next
    case (Raise e)
    then show ?thesis using mw q ok1 tr rn by (auto simp: and_then_def)
  next
    case Running
    then show ?thesis using mw q ok1 tr rn by (auto simp: and_then_def)
  qed
qed

lemma steps_weaken:
  assumes "steps E \<delta> s p Q" "\<And>r s'. Q r s' \<Longrightarrow> Q' r s'"
  shows "steps E \<delta> s p Q'"
  using assms unfolding steps_def by blast

lemma steps_print_lines:
  assumes "\<And>l. l \<in> set ls \<Longrightarrow> \<delta> s (Print l) = Some s"
    "Q (Return ()) s" "\<And>e. can_raise E e \<Longrightarrow> Q (Raise e) s" "Q Running s"
  shows "steps E \<delta> s (print_lines ls) Q"
  using assms(1)
proof (induction ls)
  case Nil
  show ?case using assms(2) by (simp add: steps_return)
next
  case (Cons l ls)
  have ih: "steps E \<delta> s (print_lines ls) Q"
    by (rule Cons.IH) (simp add: Cons.prems)
  have "steps E \<delta> s (and_then (print l) (\<lambda>_. print_lines ls)) Q"
  proof (rule steps_and_then, rule steps_print [where s' = s])
    show "\<delta> s (Print l) = Some s" by (simp add: Cons.prems)
  qed (simp_all add: ih assms)
  then show ?case by simp
qed

lemma capture_loop_steps:
  "\<forall>s. I s \<longrightarrow> steps E \<delta> s (capture_iteration cfg dir) (\<lambda>r s'. I s') \<Longrightarrow>
   I s \<Longrightarrow> env_ok E w \<Longrightarrow>
     env_ok E (snd (capture_loop cfg dir w)) \<and>
     (\<exists>evs s'. trace (snd (capture_loop cfg dir w)) = trace w @ evs \<and>
        run \<delta> s evs = Some s' \<and> I s' \<and> (\<forall>x. fst (capture_loop cfg dir w) \<noteq> Return x))"
proof (induction cfg dir w arbitrary: s rule: capture_loop.induct)
  case (1 cfg dir w)
  obtain r w1 where it: "capture_iteration cfg dir w = (r, w1)"
    by (cases "capture_iteration cfg dir w")
  have "env_ok E (snd (capture_iteration cfg dir w)) \<and>
        (\<exists>evs s'. trace (snd (capture_iteration cfg dir w)) = trace w @ evs \<and>
           run \<delta> s evs = Some s' \<and> I s')"
    using "1.prems" by (intro stepsD) auto
  then obtain evs s1 where
    ok1: "env_ok E w1" and tr: "trace w1 = trace w @ evs" and
    rn: "run \<delta> s evs = Some s1" and i1: "I s1"
    using it by auto
  show ?case
  proof (cases r)
    case (Return x)
    have eq: "capture_loop cfg dir w = capture_loop cfg dir w1"
      using it Return by (subst capture_loop.simps) simp
    from "1.IH" [OF it [symmetric] Return "1.prems"(1) i1 ok1] obtain evs2 s2 where
      a: "env_ok E (snd (capture_loop cfg dir w1))" and
      b: "trace (snd (capture_loop cfg dir w1)) = trace w1 @ evs2" and
      c: "run \<delta> s1 evs2 = Some s2" and d: "I s2" and
      e: "\<forall>x. fst (capture_loop cfg dir w1) \<noteq> Return x"
      by blast
    have "run \<delta> s (evs @ evs2) = Some s2" using rn c by (simp add: run_append)
    moreover have "trace (snd (capture_loop cfg dir w)) = trace w @ (evs @ evs2)"
      using eq b tr by simp
    ultimately show ?thesis unfolding eq using a d e by blast
  next
    case (Raise e)
    have eq: "capture_loop cfg dir w = (Raise e, w1)"
      using it Raise by (subst capture_loop.simps) simp
    show ?thesis unfolding eq using ok1 tr rn i1 by auto
  next
    case Running
    have eq: "capture_loop cfg dir w = (Running, w1)"
      using it Running by (subst capture_loop.simps) simp
    show ?thesis unfolding eq using ok1 tr rn i1 by auto
  qed
qed

lemma steps_capture_loop:
  assumes "\<And>s. I s \<Longrightarrow> steps E \<delta> s (capture_iteration cfg dir) (\<lambda>r s'. I s')" "I s"
    "\<And>r s'. I s' \<Longrightarrow> \<forall>x. r \<noteq> Return x \<Longrightarrow> Q r s'"
  shows "steps E \<delta> s (capture_loop cfg dir) Q"
  unfolding steps_def
proof (intro allI impI)
  fix w assume ok: "env_ok E w"
  have "\<forall>s. I s \<longrightarrow> steps E \<delta> s (capture_iteration cfg dir) (\<lambda>r s'. I s')"
    using assms(1) by blast
  from capture_loop_steps [OF this assms(2) ok] assms(3)
  show "env_ok E (snd (capture_loop cfg dir w)) \<and>
        (\<exists>evs s'. trace (snd (capture_loop cfg dir w)) = trace w @ evs \<and>
           run \<delta> s evs = Some s' \<and> Q (fst (capture_loop cfg dir w)) s')"
    by blast
qed

lemma stepsD2:
  "steps E \<delta> s p Q \<Longrightarrow> env_ok E w \<Longrightarrow> p w = (r, w') \<Longrightarrow>
     env_ok E w' \<and>
     (\<exists>evs s'. trace w' = trace w @ evs \<and> run \<delta> s evs = Some s' \<and> Q r s')"
  by (drule (1) stepsD) simp

lemma finally_stage:
  assumes f: "steps E \<delta> s2 final (\<lambda>r3 s3. case r3 of Return _ \<Rightarrow> Q r2 s3 | _ \<Rightarrow> Q r3 s3)"
    and ok: "env_ok E w2"
    and res: "res = (case final w2 of (Return _, w3) \<Rightarrow> (r2, w3) | (r3, w3) \<Rightarrow> (r3, w3))"
  shows "env_ok E (snd res) \<and>
     (\<exists>evs s'. trace (snd res) = trace w2 @ evs \<and> run \<delta> s2 evs = Some s' \<and> Q (fst res) s')"
proof -
  obtain r3 w3 where fw: "final w2 = (r3, w3)" by (cases "final w2")
  have "env_ok E w3 \<and>
     (\<exists>evs s3. trace w3 = trace w2 @ evs \<and> run \<delta> s2 evs = Some s3 \<and>
        (case r3 of Return _ \<Rightarrow> Q r2 s3 | _ \<Rightarrow> Q r3 s3))"
    using stepsD2 [OF f ok fw] by blast
  then show ?thesis using fw res by (cases r3) auto
qed

lemma steps_try_except_finally:
  assumes b: "steps E \<delta> s body
      (\<lambda>r1 s1. case r1 of
          Running \<Rightarrow> Q Running s1
        | Raise e \<Rightarrow>
            (if e = KeyboardInterrupt
             then steps E \<delta> s1 handler
                    (\<lambda>r2 s2. case r2 of
                        Running \<Rightarrow> Q Running s2
                      | _ \<Rightarrow> steps E \<delta> s2 final
                               (\<lambda>r3 s3. case r3 of Return _ \<Rightarrow> Q r2 s3 | _ \<Rightarrow> Q r3 s3))
             else steps E \<delta> s1 final
                    (\<lambda>r3 s3. case r3 of Return _ \<Rightarrow> Q (Raise e) s3 | _ \<Rightarrow> Q r3 s3))
        | Return x \<Rightarrow>
            steps E \<delta> s1 final
              (\<lambda>r3 s3. case r3 of Return _ \<Rightarrow> Q (Return x) s3 | _ \<Rightarrow> Q r3 s3))"
  shows "steps E \<delta> s (try_except_finally body handler final) Q"
  unfolding steps_def
proof (intro allI impI)
  fix w assume ok: "env_ok E w"
  let ?res = "try_except_finally body handler final w"
  obtain r1 w1 where bw: "body w = (r1, w1)" by (cases "body w")
  from stepsD2 [OF b ok bw] obtain evs1 s1 where
    ok1: "env_ok E w1" and tr1: "trace w1 = trace w @ evs1" and
    rn1: "run \<delta> s evs1 = Some s1" and
    q1: "case r1 of
          Running \<Rightarrow> Q Running s1
        | Raise e \<Rightarrow>
            (if e = KeyboardInterrupt
             then steps E \<delta> s1 handler
                    (\<lambda>r2 s2. case r2 of
                        Running \<Rightarrow> Q Running s2
                      | _ \<Rightarrow> steps E \<delta> s2 final
                               (\<lambda>r3 s3. case r3 of Return _ \<Rightarrow> Q r2 s3 | _ \<Rightarrow> Q r3 s3))
             else steps E \<delta> s1 final
                    (\<lambda>r3 s3. case r3 of Return _ \<Rightarrow> Q (Raise e) s3 | _ \<Rightarrow> Q r3 s3))
        | Return x \<Rightarrow>
            steps E \<delta> s1 final
              (\<lambda>r3 s3. case r3 of Return _ \<Rightarrow> Q (Return x) s3 | _ \<Rightarrow> Q r3 s3)"
    by blast
  have via: "\<exists>evs s'. trace (snd ?res) = trace w @ evs \<and> run \<delta> s evs = Some s' \<and> Q (fst ?res) s'"
    if "trace (snd ?res) = trace w1 @ evs2" "run \<delta> s1 evs2 = Some s'" "Q (fst ?res) s'"
    for evs2 s'
  proof -
    have "run \<delta> s (evs1 @ evs2) = Some s'" using rn1 that(2) by (simp add: run_append)
    moreover have "trace (snd ?res) = trace w @ (evs1 @ evs2)" using that(1) tr1 by simp
    ultimately show ?thesis using that(3) by blast
  qed
  have direct: "env_ok E (snd ?res) \<and>
      (\<exists>evs s'. trace (snd ?res) = trace w @ evs \<and> run \<delta> s evs = Some s' \<and> Q (fst ?res) s')"
    if nk: "r1 \<noteq> Raise KeyboardInterrupt" and nr: "r1 \<noteq> Running" and
      f: "steps E \<delta> s1 final (\<lambda>r3 s3. case r3 of Return _ \<Rightarrow> Q r1 s3 | _ \<Rightarrow> Q r3 s3)"
  proof -
    have res: "?res = (case final w1 of (Return _, w3) \<Rightarrow> (r1, w3) | (r3, w3) \<Rightarrow> (r3, w3))"
      using bw nk nr by (cases r1) (auto simp: try_except_finally_def)
    from finally_stage [OF f ok1 res] show ?thesis using via by blast
  qed
  show "env_ok E (snd ?res) \<and>
      (\<exists>evs s'. trace (snd ?res) = trace w @ evs \<and> run \<delta> s evs = Some s' \<and> Q (fst ?res) s')"
  proof (cases r1)
    case (Return x)
    then show ?thesis using q1 by (intro direct) auto
  next
    case Running
    then have "?res = (Running, w1)" using bw by (simp add: try_except_finally_def)
    then show ?thesis using Running q1 ok1 tr1 rn1 by simp
  next
    case (Raise e)
    show ?thesis
    proof (cases "e = KeyboardInterrupt")
      case False
      then show ?thesis using Raise q1 by (intro direct) auto
    next
      case True
      obtain r2 w2 where hw: "handler w1 = (r2, w2)" by (cases "handler w1")
      have h: "steps E \<delta> s1 handler
                    (\<lambda>r2 s2. case r2 of
                        Running \<Rightarrow> Q Running s2
                      | _ \<Rightarrow> steps E \<delta> s2 final
                               (\<lambda>r3 s3. case r3 of Return _ \<Rightarrow> Q r2 s3 | _ \<Rightarrow> Q r3 s3))"
        using q1 Raise True by simp
      from stepsD2 [OF h ok1 hw] obtain evs2 s2 where
        ok2: "env_ok E w2" and tr2: "trace w2 = trace w1 @ evs2" and
        rn2: "run \<delta> s1 evs2 = Some s2" and
        q2: "case r2 of Running \<Rightarrow> Q Running s2
              | _ \<Rightarrow> steps E \<delta> s2 final
                       (\<lambda>r3 s3. case r3 of Return _ \<Rightarrow> Q r2 s3 | _ \<Rightarrow> Q r3 s3)"
        by blast
      show ?thesis
      proof (cases "r2 = Running")
        case True
        then have "?res = (Running, w2)"
          using bw hw Raise \<open>e = KeyboardInterrupt\<close> by (simp add: try_except_finally_def)
        then show ?thesis using True q2 ok2 tr2 rn2 via by simp
      next
        case False
        then have f: "steps E \<delta> s2 final
                       (\<lambda>r3 s3. case r3 of Return _ \<Rightarrow> Q r2 s3 | _ \<Rightarrow> Q r3 s3)"
          using q2 by (cases r2) simp_all
        have res: "?res = (case final w2 of (Return _, w3) \<Rightarrow> (r2, w3) | (r3, w3) \<Rightarrow> (r3, w3))"
          using bw hw Raise \<open>e = KeyboardInterrupt\<close> False
          by (cases r2) (auto simp: try_except_finally_def)
        from finally_stage [OF f ok2 res] obtain evs3 s3 where
          "env_ok E (snd ?res)" "trace (snd ?res) = trace w2 @ evs3"
          "run \<delta> s2 evs3 = Some s3" "Q (fst ?res) s3"
          by blast
        moreover have "run \<delta> s1 (evs2 @ evs3) = Some s3"
          using rn2 \<open>run \<delta> s2 evs3 = Some s3\<close> by (simp add: run_append)
        moreover have "trace (snd ?res) = trace w1 @ (evs2 @ evs3)"
          using \<open>trace (snd ?res) = trace w2 @ evs3\<close> tr2 by simp
        ultimately show ?thesis using via by blast
      qed
    qed
  qed
qed

section \<open>The lifecycle of the camera handle\<close>

text \<open>The lifecycle as a monitor of the calls of a run: the handle is opened by the
  first call of the run, configured once, started once after that, stopped once after
  that; calls that do not touch the camera leave the state as it is.\<close>

datatype lifecycle = Idle | Opened | Configured | Started | Stopped

fun lifecycle_step :: "lifecycle \<Rightarrow> event \<Rightarrow> lifecycle option" where
  "lifecycle_step Idle Picamera2 = Some Opened"
| "lifecycle_step Idle _ = None"
| "lifecycle_step s (DatetimeNow _) = Some s"
| "lifecycle_step s (MakeDirs _) = Some s"
| "lifecycle_step s (Sleep _) = Some s"
| "lifecycle_step s (Print _) = Some s"
| "lifecycle_step Opened (CreateStillConfiguration _) = Some Opened"
| "lifecycle_step Opened (Configure _) = Some Configured"
| "lifecycle_step Configured (SetControls _) = Some Configured"
| "lifecycle_step Configured Start = Some Started"
| "lifecycle_step Started (CaptureFile _) = Some Started"
| "lifecycle_step Started Stop = Some Stopped"
| "lifecycle_step _ _ = None"

definition any_tick :: "tick \<Rightarrow> bool" where
  "any_tick t = True"

lemma env_ok_any [simp]: "env_ok any_tick w"
  by (simp add: env_ok_def any_tick_def list_all_iff)

lemma steps_if:
  "(b \<Longrightarrow> steps E \<delta> s p Q) \<Longrightarrow> (\<not> b \<Longrightarrow> steps E \<delta> s q Q) \<Longrightarrow>
     steps E \<delta> s (if b then p else q) Q"
  by simp

lemmas steps_intros =
  steps_and_then steps_if steps_ext_call steps_print steps_return steps_datetime_now
  steps_os_makedirs

lemma configure_auto_lifecycle:
  assumes "Q (Return ()) Configured" "\<And>e. Q (Raise e) Opened" "\<And>e. Q (Raise e) Configured"
    "Q Running Opened" "Q Running Configured"
  shows "steps E lifecycle_step Opened (configure_auto a) Q"
  unfolding configure_auto_def create_still_configuration_def print_lines.simps
  by (rule steps_intros | simp add: assms)+


lemma configure_manual_lifecycle:
  assumes "Q (Return ()) Configured" "\<And>e. Q (Raise e) Opened" "\<And>e. Q (Raise e) Configured"
    "Q Running Opened" "Q Running Configured"
  shows "steps E lifecycle_step Opened (configure_manual ms) Q"
  unfolding configure_manual_def create_still_configuration_def Let_def case_prod_beta
  by (rule steps_intros steps_print_lines | simp add: assms)+

lemma create_output_directory_lifecycle:
  assumes "\<And>dir. Q (Return dir) Started" "\<And>e. Q (Raise e) Started" "Q Running Started"
  shows "steps E lifecycle_step Started (create_output_directory base) Q"
  unfolding create_output_directory_def Let_def
  by (rule steps_intros | simp add: assms)+

lemma startup_lifecycle:
  "steps E lifecycle_step Idle (startup cfg) (\<lambda>r s. \<forall>dir. r = Return dir \<longrightarrow> s = Started)"
  unfolding startup_def
  by (rule steps_intros configure_auto_lifecycle configure_manual_lifecycle
        create_output_directory_lifecycle | simp split del: if_split)+

lemma capture_iteration_lifecycle:
  "steps E lifecycle_step Started (capture_iteration cfg dir) (\<lambda>r s. s = Started)"
  unfolding capture_iteration_def Let_def
  by (rule steps_intros | simp)+

lemma steps_try:
  assumes body: "steps E \<delta> s body (\<lambda>r s1. I s1)"
    and handler: "\<And>s1. I s1 \<Longrightarrow> steps E \<delta> s1 handler (\<lambda>r s2. I s2)"
    and final: "\<And>s2. I s2 \<Longrightarrow> steps E \<delta> s2 final F"
    and running: "\<And>s. I s \<Longrightarrow> Q Running s"
    and exited: "\<And>r3 s3 r. F r3 s3 \<Longrightarrow> r3 \<noteq> Running \<Longrightarrow> r \<noteq> Running \<Longrightarrow> Q r s3"
    and cut: "\<And>s3. F Running s3 \<Longrightarrow> Q Running s3"
  shows "steps E \<delta> s (try_except_finally body handler final) Q"
proof (rule steps_try_except_finally, rule steps_weaken [OF body])
  fix r1 :: "unit result" and s1
  assume i1: "I s1"
  have fin: "steps E \<delta> s2 final (\<lambda>r3 s3. case r3 of Return _ \<Rightarrow> Q r s3 | _ \<Rightarrow> Q r3 s3)"
    if "I s2" "r \<noteq> Running" for s2 and r :: "unit result"
  proof (rule steps_weaken [OF final [OF that(1)]])
    fix r3 :: "unit result" and s3
    assume f: "F r3 s3"
    show "case r3 of Return _ \<Rightarrow> Q r s3 | _ \<Rightarrow> Q r3 s3"
      using exited [OF f] cut f that(2) by (cases r3) auto
  qed
  have han: "steps E \<delta> s1 handler
                    (\<lambda>r2 s2. case r2 of
                        Running \<Rightarrow> Q Running s2
                      | _ \<Rightarrow> steps E \<delta> s2 final
                               (\<lambda>r3 s3. case r3 of Return _ \<Rightarrow> Q r2 s3 | _ \<Rightarrow> Q r3 s3))"
  proof (rule steps_weaken [OF handler [OF i1]])
    fix r2 :: "unit result" and s2
    assume "I s2"
    then show "case r2 of
                        Running \<Rightarrow> Q Running s2
                      | _ \<Rightarrow> steps E \<delta> s2 final
                               (\<lambda>r3 s3. case r3 of Return _ \<Rightarrow> Q r2 s3 | _ \<Rightarrow> Q r3 s3)"
      using running fin by (cases r2) auto
  qed
  show "case r1 of
          Running \<Rightarrow> Q Running s1
        | Raise e \<Rightarrow>
            (if e = KeyboardInterrupt
             then steps E \<delta> s1 handler
                    (\<lambda>r2 s2. case r2 of
                        Running \<Rightarrow> Q Running s2
                      | _ \<Rightarrow> steps E \<delta> s2 final
                               (\<lambda>r3 s3. case r3 of Return _ \<Rightarrow> Q r2 s3 | _ \<Rightarrow> Q r3 s3))
             else steps E \<delta> s1 final
                    (\<lambda>r3 s3. case r3 of Return _ \<Rightarrow> Q (Raise e) s3 | _ \<Rightarrow> Q r3 s3))
        | Return x \<Rightarrow>
            steps E \<delta> s1 final
              (\<lambda>r3 s3. case r3 of Return _ \<Rightarrow> Q (Return x) s3 | _ \<Rightarrow> Q r3 s3)"
    using running [OF i1] han fin [OF i1] by (cases r1) auto
qed

lemma try_body_lifecycle:
  "steps E lifecycle_step Started (try_body cfg dir) (\<lambda>r s. s = Started)"
  unfolding try_body_def
  by (rule steps_intros steps_capture_loop [where I = "\<lambda>s. s = Started"]
        capture_iteration_lifecycle | simp)+

lemma finally_block_lifecycle:
  "steps E lifecycle_step Started finally_block
     (\<lambda>r s. (r \<noteq> Running \<longrightarrow> s = Stopped) \<and> (s = Started \<or> s = Stopped))"
  unfolding finally_block_def
  by (rule steps_intros | simp)+

lemma capture_session_lifecycle:
  "steps E lifecycle_step Started (capture_session cfg dir)
     (\<lambda>r s. (r \<noteq> Running \<longrightarrow> s = Stopped) \<and> (s = Started \<or> s = Stopped))"
  unfolding capture_session_def
proof (rule steps_try [where I = "\<lambda>s. s = Started" and
      F = "\<lambda>r s. (r \<noteq> Running \<longrightarrow> s = Stopped) \<and> (s = Started \<or> s = Stopped)"])
  show "steps E lifecycle_step Started (try_body cfg dir) (\<lambda>r s1. s1 = Started)"
    by (rule try_body_lifecycle)
  show "steps E lifecycle_step s1 interrupt_handler (\<lambda>r s2. s2 = Started)"
    if "s1 = Started" for s1
    unfolding interrupt_handler_def that by (rule steps_intros | simp)+
  show "steps E lifecycle_step s2 finally_block
          (\<lambda>r s. (r \<noteq> Running \<longrightarrow> s = Stopped) \<and> (s = Started \<or> s = Stopped))"
    if "s2 = Started" for s2
    unfolding that by (rule finally_block_lifecycle)
qed auto

fun rank :: "lifecycle \<Rightarrow> nat" where
  "rank Idle = 0" | "rank Opened = 1" | "rank Configured = 2" | "rank Started = 3"
| "rank Stopped = 4"

definition passes :: "nat \<Rightarrow> lifecycle \<Rightarrow> lifecycle \<Rightarrow> nat" where
  "passes k s s' = (if rank s < k \<and> k \<le> rank s' then 1 else 0)"

fun is_configure :: "event \<Rightarrow> bool" where
  "is_configure (Configure _) = True"
| "is_configure _ = False"

lemma lifecycle_step_counts:
  "lifecycle_step s e = Some s1 \<Longrightarrow>
     rank s \<le> rank s1 \<and>
     (if e = Picamera2 then 1 else 0) = passes 1 s s1 \<and>
     (if is_configure e then 1 else 0) = passes 2 s s1 \<and>
     (if e = Start then 1 else 0) = passes 3 s s1 \<and>
     (if e = Stop then 1 else 0) = passes 4 s s1"
  by (cases s; cases e; auto simp: passes_def)

lemma passes_trans:
  "rank s \<le> rank s1 \<Longrightarrow> rank s1 \<le> rank s' \<Longrightarrow>
     passes k s s1 + passes k s1 s' = passes k s s'"
  by (auto simp: passes_def)

lemma lifecycle_counts:
  "run lifecycle_step s tr = Some s' \<Longrightarrow>
     rank s \<le> rank s' \<and>
     count_list tr Picamera2 = passes 1 s s' \<and>
     length (filter is_configure tr) = passes 2 s s' \<and>
     count_list tr Start = passes 3 s s' \<and>
     count_list tr Stop = passes 4 s s'"
proof (induction tr arbitrary: s)
  case Nil
  then show ?case by (auto simp: passes_def)
next
  case (Cons e tr)
  then obtain s1 where st: "lifecycle_step s e = Some s1" and rn: "run lifecycle_step s1 tr = Some s'"
    by (auto split: option.splits)
  note a = lifecycle_step_counts [OF st] and b = Cons.IH [OF rn]
  have le: "rank s \<le> rank s1" "rank s1 \<le> rank s'" using a b by simp_all
  show ?case
    using a b passes_trans [OF le, of 1] passes_trans [OF le, of 2]
      passes_trans [OF le, of 3] passes_trans [OF le, of 4]
    by (auto split: if_splits)
qed

lemma main_after_startup:
  "startup cfg w = (Return dir, w1) \<Longrightarrow> main cfg w = capture_session cfg dir w1"
  by (simp add: main_def and_then_def)

text \<open>
  Claim C1, as the code has it. In every run that has started the camera and created the
  output directory (the \<^verbatim>\<open>try\<close> statement is entered), and that exits, whether after
  an operator interrupt or with an unhandled fault of the capture loop, the device stop
  operation is invoked exactly once before the exit, after the one start.
\<close>

theorem stop_on_exit_from_capture_loop:
  assumes st: "startup cfg w = (Return dir, w1)" and mn: "main cfg w = (r, w')"
    and ex: "r \<noteq> Running"
  shows "\<exists>evs0 evs. trace w1 = trace w @ evs0 \<and> trace w' = trace w1 @ evs \<and>
           count_list evs0 Start = 1 \<and> count_list evs0 Stop = 0 \<and> count_list evs Stop = 1"
proof -
  from stepsD2 [OF startup_lifecycle env_ok_any st] obtain evs0 where
    t0: "trace w1 = trace w @ evs0" and r0: "run lifecycle_step Idle evs0 = Some Started"
    by auto
  have cs: "capture_session cfg dir w1 = (r, w')"
    using main_after_startup [OF st] mn by simp
  from stepsD2 [OF capture_session_lifecycle env_ok_any cs] ex obtain evs where
    t1: "trace w' = trace w1 @ evs" and r1: "run lifecycle_step Started evs = Some Stopped"
    by auto
  show ?thesis
    using t0 t1 lifecycle_counts [OF r0] lifecycle_counts [OF r1]
    by (auto simp: passes_def)
qed

section \<open>Concrete runs\<close>

definition example_clock :: datetime where
  "example_clock =
     \<lparr>year = 2025, month = 1, day = 3, hour = 10, minute = 15, second = 0, microsecond = 0\<rparr>"

text \<open>\<open>returning n\<close>: the next \<open>n\<close> calls return; \<open>raising e\<close>: the next call raises \<open>e\<close>.\<close>

definition returning :: "nat \<Rightarrow> tick list" where
  "returning n = replicate n \<lparr>raised = None, clock = example_clock\<rparr>"

definition raising :: "exn \<Rightarrow> tick" where
  "raising e = \<lparr>raised = Some e, clock = example_clock\<rparr>"

definition fresh_world :: "tick list \<Rightarrow> world" where
  "fresh_world s = \<lparr>script = s, fs = [], trace = []\<rparr>"

lemma ext_call_eval:
  "ext_call ev \<lparr>script = t # ts, fs = f, trace = tr\<rparr> =
     (case raised t of
        Some e \<Rightarrow> (Raise e, \<lparr>script = ts, fs = f, trace = tr @ [ev]\<rparr>)
      | None \<Rightarrow> (Return (), \<lparr>script = ts, fs = f, trace = tr @ [ev]\<rparr>))"
  "ext_call ev \<lparr>script = [], fs = f, trace = tr\<rparr> = (Running, \<lparr>script = [], fs = f, trace = tr\<rparr>)"
  by (simp_all add: ext_call_def Let_def split: option.split)

lemma datetime_now_eval:
  "datetime_now \<lparr>script = t # ts, fs = f, trace = tr\<rparr> =
     (case raised t of
        Some e \<Rightarrow> (Raise e, \<lparr>script = ts, fs = f, trace = tr\<rparr>)
      | None \<Rightarrow> (Return (clock t), \<lparr>script = ts, fs = f, trace = tr @ [DatetimeNow (clock t)]\<rparr>))"
  "datetime_now \<lparr>script = [], fs = f, trace = tr\<rparr> = (Running, \<lparr>script = [], fs = f, trace = tr\<rparr>)"
  by (simp_all add: datetime_now_def split: option.split)

lemma os_makedirs_eval:
  "os_makedirs p \<lparr>script = t # ts, fs = f, trace = tr\<rparr> =
     (case raised t of
        Some e \<Rightarrow> (Raise e, \<lparr>script = ts, fs = f, trace = tr @ [MakeDirs p]\<rparr>)
      | None \<Rightarrow>
          (case makedirs_fs p f of
             Inl err \<Rightarrow> (Raise (Fault err), \<lparr>script = ts, fs = f, trace = tr @ [MakeDirs p]\<rparr>)
           | Inr f' \<Rightarrow> (Return (), \<lparr>script = ts, fs = f', trace = tr @ [MakeDirs p]\<rparr>)))"
  "os_makedirs p \<lparr>script = [], fs = f, trace = tr\<rparr> = (Running, \<lparr>script = [], fs = f, trace = tr\<rparr>)"
  by (simp_all add: os_makedirs_def Let_def split: option.split sum.split)

lemma example_dir:
  "strftime ''%Y%m%d_%H%M%S'' example_clock = ''20250103_101500''"
  by code_simp

lemma example_image:
  "strftime ''image_%Y%m%d_%H%M%S.jpg'' example_clock = ''image_20250103_101500.jpg''"
  by code_simp

lemma example_makedirs:
  "makedirs_fs ''/media/nagli/aed29726-d3de-4f78-8450-0f34bb1faab11/20250103_101500'' [] =
     Inr [(''/media/nagli/aed29726-d3de-4f78-8450-0f34bb1faab11/20250103_101500'', Dir),
          (''/media/nagli/aed29726-d3de-4f78-8450-0f34bb1faab11'', Dir),
          (''/media/nagli'', Dir), (''/media'', Dir)]"
  by code_simp

lemmas run_eval =
  ext_call_eval datetime_now_eval os_makedirs_eval
  startup_def main_def module_config_def fresh_world_def returning_def raising_def
  numeral_eq_Suc FULLY_AUTO_MODE_def configure_auto_def create_still_configuration_def
  return_def print_def create_output_directory_def AUTO_SETTINGS_def OUTPUT_BASE_PATH_def
  INTERVAL_SECONDS_def and_then_def Let_def capture_session_def try_except_finally_def
  try_body_def interrupt_handler_def finally_block_def capture_iteration_def
  capture_loop.simps os_path_join_def example_dir example_image example_makedirs

lemma interrupted_run_startup:
  "fst (startup module_config (fresh_world (returning 12 @ [raising KeyboardInterrupt] @ returning 3))) =
     Return ''/media/nagli/aed29726-d3de-4f78-8450-0f34bb1faab11/20250103_101500''"
  by (simp add: run_eval)

lemma interrupted_run_main:
  "fst (main module_config (fresh_world (returning 12 @ [raising KeyboardInterrupt] @ returning 3))) =
     Return ()"
  by (simp add: run_eval)

text \<open>An interrupted run of the program as configured: the interrupt arrives at the
  first clock reading of the loop.\<close>

theorem stop_on_exit_from_capture_loop_witness:
  "fst (startup module_config
          (fresh_world (returning 12 @ [raising KeyboardInterrupt] @ returning 3))) =
     Return ''/media/nagli/aed29726-d3de-4f78-8450-0f34bb1faab11/20250103_101500'' \<and>
   fst (main module_config
          (fresh_world (returning 12 @ [raising KeyboardInterrupt] @ returning 3))) = Return () \<and>
   (\<exists>evs0 evs.
      trace (snd (startup module_config
          (fresh_world (returning 12 @ [raising KeyboardInterrupt] @ returning 3)))) =
        trace (fresh_world (returning 12 @ [raising KeyboardInterrupt] @ returning 3)) @ evs0 \<and>
      trace (snd (main module_config
          (fresh_world (returning 12 @ [raising KeyboardInterrupt] @ returning 3)))) =
        trace (snd (startup module_config
          (fresh_world (returning 12 @ [raising KeyboardInterrupt] @ returning 3)))) @ evs \<and>
      count_list evs0 Start = 1 \<and> count_list evs0 Stop = 0 \<and> count_list evs Stop = 1)"
proof -
  let ?w = "fresh_world (returning 12 @ [raising KeyboardInterrupt] @ returning 3)"
  have a: "startup module_config ?w =
      (Return ''/media/nagli/aed29726-d3de-4f78-8450-0f34bb1faab11/20250103_101500'',
       snd (startup module_config ?w))"
    using interrupted_run_startup by (simp add: prod_eq_iff)
  have b: "main module_config ?w = (Return (), snd (main module_config ?w))"
    using interrupted_run_main by (simp add: prod_eq_iff)
  show ?thesis
    using stop_on_exit_from_capture_loop [OF a b] interrupted_run_startup interrupted_run_main
    by simp
qed

text \<open>
  Claim C1 as stated fails: \<^verbatim>\<open>create_output_directory\<close> is called after
  \<^verbatim>\<open>picam.start()\<close> and before the \<^verbatim>\<open>try\<close> statement. In this run
  \<^verbatim>\<open>os.makedirs\<close> raises; the process exits with that fault, the camera was started
  and is never stopped.
\<close>

theorem stop_missing_after_directory_fault:
  "fst (main module_config
          (fresh_world (returning 9 @ [raising (Fault ''PermissionError'')]))) =
     Raise (Fault ''PermissionError'') \<and>
   count_list (trace (snd (main module_config
          (fresh_world (returning 9 @ [raising (Fault ''PermissionError'')]))))) Start = 1 \<and>
   count_list (trace (snd (main module_config
          (fresh_world (returning 9 @ [raising (Fault ''PermissionError'')]))))) Stop = 0 \<and>
   last (trace (snd (main module_config
          (fresh_world (returning 9 @ [raising (Fault ''PermissionError'')]))))) =
     MakeDirs ''/media/nagli/aed29726-d3de-4f78-8450-0f34bb1faab11/20250103_101500''"
  by (simp add: run_eval)

lemma main_startup_not_returned:
  "startup cfg w = (r0, w1) \<Longrightarrow> \<forall>dir. r0 \<noteq> Return dir \<Longrightarrow>
     main cfg w = (case r0 of Raise e \<Rightarrow> (Raise e, w1) | _ \<Rightarrow> (Running, w1))"
  by (cases r0) (simp_all add: main_def and_then_def)

definition example_directory :: string where
  "example_directory = ''/media/nagli/aed29726-d3de-4f78-8450-0f34bb1faab11/20250103_101500''"

text \<open>An interrupted run of the program as configured: the interrupt arrives at the
  first clock reading of the loop, and the three calls of the shutdown return.\<close>

definition interrupted_world :: world where
  "interrupted_world = fresh_world (returning 12 @ [raising KeyboardInterrupt] @ returning 3)"

lemma interrupted_startup:
  "fst (startup module_config interrupted_world) = Return example_directory"
  by (simp add: run_eval interrupted_world_def example_directory_def)

lemma interrupted_main:
  "fst (main module_config interrupted_world) = Return ()"
  by (simp add: run_eval interrupted_world_def)

lemma interrupted_try_body:
  "fst (try_body module_config example_directory (snd (startup module_config interrupted_world))) =
     Raise KeyboardInterrupt"
  "script (snd (try_body module_config example_directory
      (snd (startup module_config interrupted_world)))) =
     [\<lparr>raised = None, clock = example_clock\<rparr>, \<lparr>raised = None, clock = example_clock\<rparr>,
      \<lparr>raised = None, clock = example_clock\<rparr>]"
  by (simp_all add: run_eval interrupted_world_def example_directory_def)

text \<open>
  Claim C9, as the code has it. The calls of every run follow the lifecycle of the
  handle: it is opened by the first call of the run, then configured, then started, then
  stopped, each at most once and in this order, so it is never reopened and never
  configured again once started. A run that has entered the \<^verbatim>\<open>try\<close> statement and exits
  has opened, configured, started and stopped the handle exactly once each.
\<close>

theorem device_lifecycle:
  assumes mn: "main cfg w = (r, w')"
  shows "\<exists>evs s. trace w' = trace w @ evs \<and> run lifecycle_step Idle evs = Some s \<and>
           count_list evs Picamera2 \<le> 1 \<and> length (filter is_configure evs) \<le> 1 \<and>
           count_list evs Start \<le> 1 \<and> count_list evs Stop \<le> 1 \<and>
           ((\<exists>dir w1. startup cfg w = (Return dir, w1)) \<and> r \<noteq> Running \<longrightarrow>
              s = Stopped \<and> count_list evs Picamera2 = 1 \<and>
              length (filter is_configure evs) = 1 \<and> count_list evs Start = 1 \<and>
              count_list evs Stop = 1)"
proof -
  obtain r0 w1 where st: "startup cfg w = (r0, w1)" by (cases "startup cfg w")
  from stepsD2 [OF startup_lifecycle env_ok_any st] obtain evs0 s0 where
    t0: "trace w1 = trace w @ evs0" and r0: "run lifecycle_step Idle evs0 = Some s0" and
    q0: "\<forall>dir. r0 = Return dir \<longrightarrow> s0 = Started"
    by auto
  show ?thesis
  proof (cases "\<exists>dir. r0 = Return dir")
    case True
    then obtain dir where ret: "r0 = Return dir" by blast
    have cs: "capture_session cfg dir w1 = (r, w')"
      using main_after_startup [of cfg w dir w1] st ret mn by simp
    from stepsD2 [OF capture_session_lifecycle env_ok_any cs] obtain evs1 s1 where
      t1: "trace w' = trace w1 @ evs1" and r1: "run lifecycle_step Started evs1 = Some s1" and
      q1: "r \<noteq> Running \<longrightarrow> s1 = Stopped"
      by auto
    have rn: "run lifecycle_step Idle (evs0 @ evs1) = Some s1"
      using r0 r1 q0 ret by (simp add: run_append)
    have tr: "trace w' = trace w @ (evs0 @ evs1)" using t0 t1 by simp
    note c = lifecycle_counts [OF rn]
    have "count_list (evs0 @ evs1) Picamera2 \<le> 1 \<and>
          length (filter is_configure (evs0 @ evs1)) \<le> 1 \<and>
          count_list (evs0 @ evs1) Start \<le> 1 \<and> count_list (evs0 @ evs1) Stop \<le> 1"
      using c by (simp add: passes_def)
    moreover have "r \<noteq> Running \<longrightarrow>
          s1 = Stopped \<and> count_list (evs0 @ evs1) Picamera2 = 1 \<and>
          length (filter is_configure (evs0 @ evs1)) = 1 \<and>
          count_list (evs0 @ evs1) Start = 1 \<and> count_list (evs0 @ evs1) Stop = 1"
      using c q1 by (simp add: passes_def)
    ultimately show ?thesis using tr rn by blast
  next
    case False
    then have "main cfg w = (case r0 of Raise e \<Rightarrow> (Raise e, w1) | _ \<Rightarrow> (Running, w1))"
      using main_startup_not_returned [OF st] by blast
    then have w': "w' = w1" using mn by (cases r0) auto
    note c = lifecycle_counts [OF r0]
    have "count_list evs0 Picamera2 \<le> 1 \<and> length (filter is_configure evs0) \<le> 1 \<and>
          count_list evs0 Start \<le> 1 \<and> count_list evs0 Stop \<le> 1"
      using c by (simp add: passes_def)
    moreover have "\<not> (\<exists>dir w1. startup cfg w = (Return dir, w1))"
      using st False by simp
    ultimately show ?thesis using t0 r0 w' by blast
  qed
qed

theorem device_lifecycle_witness:
  "fst (startup module_config interrupted_world) = Return example_directory \<and>
   fst (main module_config interrupted_world) = Return () \<and>
   (\<exists>evs. trace (snd (main module_config interrupted_world)) =
             trace interrupted_world @ evs \<and>
          run lifecycle_step Idle evs = Some Stopped \<and>
          count_list evs Picamera2 = 1 \<and> length (filter is_configure evs) = 1 \<and>
          count_list evs Start = 1 \<and> count_list evs Stop = 1)"
proof -
  have a: "startup module_config interrupted_world =
      (Return example_directory, snd (startup module_config interrupted_world))"
    using interrupted_startup by (simp add: prod_eq_iff)
  have b: "main module_config interrupted_world =
      (Return (), snd (main module_config interrupted_world))"
    using interrupted_main by (simp add: prod_eq_iff)
  from device_lifecycle [OF b] a show ?thesis
    using interrupted_startup interrupted_main by auto
qed

text \<open>
  Claim C9 as stated fails for a run that ends between \<^verbatim>\<open>picam.start()\<close> and the
  \<^verbatim>\<open>try\<close> statement: here the operator's interrupt arrives while the line
  \<^verbatim>\<open>[INFO] Camera started.\<close> is printed. The handle was opened, configured and started
  once, and the process exits without a stop.
\<close>

theorem started_handle_not_stopped:
  "fst (main module_config (fresh_world (returning 7 @ [raising KeyboardInterrupt]))) =
     Raise KeyboardInterrupt \<and>
   count_list (trace (snd (main module_config
      (fresh_world (returning 7 @ [raising KeyboardInterrupt]))))) Start = 1 \<and>
   count_list (trace (snd (main module_config
      (fresh_world (returning 7 @ [raising KeyboardInterrupt]))))) Stop = 0 \<and>
   last (trace (snd (main module_config
      (fresh_world (returning 7 @ [raising KeyboardInterrupt]))))) =
     Print ''[INFO] Camera started.''"
  by (simp add: run_eval)

text \<open>
  Claim C7. When the operator's interrupt is raised in the body of the \<^verbatim>\<open>try\<close>
  statement (the capture loop) and the three calls of the shutdown return, the run ends
  with a normal return of \<^verbatim>\<open>main\<close>: after the interrupt it prints the shutdown notice,
  stops the device and prints the exit line, and makes no other call; the device stop is
  the only one of the run.
\<close>

theorem interrupt_shutdown:
  assumes st: "startup cfg w = (Return dir, w1)"
    and tb: "try_body cfg dir w1 = (Raise KeyboardInterrupt, w2)"
    and sc: "script w2 = t1 # t2 # t3 # rest"
    and calm: "raised t1 = None" "raised t2 = None" "raised t3 = None"
  shows "main cfg w =
           (Return (),
            w2\<lparr>script := rest,
               trace := trace w2 @
                 [Print (CHR 0x0A # ''[INFO] Stopping image capture...''), Stop,
                  Print ''[INFO] Camera stopped. Exiting.'']\<rparr>) \<and>
         (\<exists>evs. trace w2 = trace w @ evs \<and> count_list evs Stop = 0)"
proof -
  have "capture_session cfg dir w1 =
           (Return (),
            w2\<lparr>script := rest,
               trace := trace w2 @
                 [Print (CHR 0x0A # ''[INFO] Stopping image capture...''), Stop,
                  Print ''[INFO] Camera stopped. Exiting.'']\<rparr>)"
    using tb sc calm
    by (simp add: capture_session_def try_except_finally_def interrupt_handler_def
        finally_block_def print_def ext_call_def and_then_def Let_def)
  then have a: "main cfg w =
           (Return (),
            w2\<lparr>script := rest,
               trace := trace w2 @
                 [Print (CHR 0x0A # ''[INFO] Stopping image capture...''), Stop,
                  Print ''[INFO] Camera stopped. Exiting.'']\<rparr>)"
    using main_after_startup [OF st] by simp
  from stepsD2 [OF startup_lifecycle env_ok_any st] obtain evs0 where
    t0: "trace w1 = trace w @ evs0" and r0: "run lifecycle_step Idle evs0 = Some Started"
    by auto
  from stepsD2 [OF try_body_lifecycle env_ok_any tb] obtain evs1 where
    t1: "trace w2 = trace w1 @ evs1" and r1: "run lifecycle_step Started evs1 = Some Started"
    by auto
  have "trace w2 = trace w @ (evs0 @ evs1) \<and> count_list (evs0 @ evs1) Stop = 0"
    using t0 t1 lifecycle_counts [OF r0] lifecycle_counts [OF r1] by (simp add: passes_def)
  then show ?thesis using a by blast
qed


theorem interrupt_shutdown_witness:
  "fst (startup module_config interrupted_world) = Return example_directory \<and>
   fst (try_body module_config example_directory
          (snd (startup module_config interrupted_world))) = Raise KeyboardInterrupt \<and>
   fst (main module_config interrupted_world) = Return () \<and>
   script (snd (main module_config interrupted_world)) = [] \<and>
   trace (snd (main module_config interrupted_world)) =
     trace (snd (try_body module_config example_directory
          (snd (startup module_config interrupted_world)))) @
     [Print (CHR 0x0A # ''[INFO] Stopping image capture...''), Stop,
      Print ''[INFO] Camera stopped. Exiting.''] \<and>
   (\<exists>evs. trace (snd (try_body module_config example_directory
              (snd (startup module_config interrupted_world)))) =
            trace interrupted_world @ evs \<and> count_list evs Stop = 0)"
proof -
  let ?w1 = "snd (startup module_config interrupted_world)"
  let ?w2 = "snd (try_body module_config example_directory ?w1)"
  have a: "startup module_config interrupted_world = (Return example_directory, ?w1)"
    using interrupted_startup by (simp add: prod_eq_iff)
  have b: "try_body module_config example_directory ?w1 = (Raise KeyboardInterrupt, ?w2)"
    using interrupted_try_body(1) by (simp add: prod_eq_iff)
  note c = interrupted_try_body(2)
  from interrupt_shutdown [OF a b c] show ?thesis
    using interrupted_startup interrupted_try_body(1) by simp
qed

section \<open>The resolved controls of the manual mode\<close>

lemma map_of_base_controls:
  "map_of (base_controls ms) k =
     (if k = ''Brightness'' then Some (VInt (brightness ms))
      else if k = ''Contrast'' then Some (VInt (contrast ms))
      else if k = ''Saturation'' then Some (VInt (saturation ms))
      else if k = ''Sharpness'' then Some (VInt (sharpness ms)) else None)"
  by (simp add: base_controls_def)

lemma map_of_AWB_MODE_MAP:
  "map_of AWB_MODE_MAP k =
     (if k = ''auto'' then Some Auto
      else if k = ''incandescent'' then Some Incandescent
      else if k = ''fluorescent'' then Some Fluorescent
      else if k = ''daylight'' then Some Daylight
      else if k = ''cloudy'' then Some Cloudy else None)"
  by (simp add: AWB_MODE_MAP_def)

text \<open>The dictionary after the exposure branch, as a map.\<close>

lemma map_of_handle_exposure:
  "map_of (fst (handle_exposure ms controls)) =
     (case exposure_time ms of
        Some t \<Rightarrow> (map_of controls)(''AeEnable'' \<mapsto> VBool False, ''ExposureTime'' \<mapsto> VInt t,
                     ''AnalogueGain'' \<mapsto> VFloat 1.0)
      | None \<Rightarrow> (map_of controls)(''AeEnable'' \<mapsto> VBool True))"
  by (simp add: handle_exposure_def update_conv' split: option.split)

text \<open>The dictionary after the white-balance branch, as a map.\<close>

lemma map_of_handle_white_balance:
  "map_of (fst (handle_white_balance ms controls)) =
     (case map_of AWB_MODE_MAP (lower (white_balance ms)) of
        Some mode \<Rightarrow>
          (if lower (white_balance ms) = ''auto''
           then (map_of controls)(''AwbEnable'' \<mapsto> VBool True)
           else (map_of controls)(''AwbEnable'' \<mapsto> VBool False, ''AwbMode'' \<mapsto> VAwbMode mode))
      | None \<Rightarrow> (map_of controls)(''AwbEnable'' \<mapsto> VBool True))"
  by (simp add: handle_white_balance_def Let_def update_conv' split: option.split)

text \<open>
  Claim C3. For every settings record of the manual mode: with an exposure time \<open>t\<close> the
  resolved controls have \<open>AeEnable = False\<close>, \<open>ExposureTime = t\<close> and
  \<open>AnalogueGain = 1.0\<close>; without one they have \<open>AeEnable = True\<close> and neither an
  \<open>ExposureTime\<close> nor an \<open>AnalogueGain\<close> entry.
\<close>

theorem exposure_resolution:
  "(\<forall>t. exposure_time ms = Some t \<longrightarrow>
      map_of (resolved_controls ms) ''AeEnable'' = Some (VBool False) \<and>
      map_of (resolved_controls ms) ''ExposureTime'' = Some (VInt t) \<and>
      map_of (resolved_controls ms) ''AnalogueGain'' = Some (VFloat 1.0)) \<and>
   (exposure_time ms = None \<longrightarrow>
      map_of (resolved_controls ms) ''AeEnable'' = Some (VBool True) \<and>
      map_of (resolved_controls ms) ''ExposureTime'' = None \<and>
      map_of (resolved_controls ms) ''AnalogueGain'' = None)"
  by (simp add: resolved_controls_def map_of_handle_exposure map_of_handle_white_balance
      map_of_base_controls split: option.split)

theorem exposure_resolution_witness:
  "exposure_time MANUAL_SETTINGS = Some 1000 \<and>
   map_of (resolved_controls MANUAL_SETTINGS) ''AeEnable'' = Some (VBool False) \<and>
   map_of (resolved_controls MANUAL_SETTINGS) ''ExposureTime'' = Some (VInt 1000) \<and>
   map_of (resolved_controls MANUAL_SETTINGS) ''AnalogueGain'' = Some (VFloat 1.0) \<and>
   exposure_time (MANUAL_SETTINGS\<lparr>exposure_time := None\<rparr>) = None \<and>
   map_of (resolved_controls (MANUAL_SETTINGS\<lparr>exposure_time := None\<rparr>)) ''AeEnable'' =
     Some (VBool True) \<and>
   map_of (resolved_controls (MANUAL_SETTINGS\<lparr>exposure_time := None\<rparr>)) ''ExposureTime'' = None \<and>
   map_of (resolved_controls (MANUAL_SETTINGS\<lparr>exposure_time := None\<rparr>)) ''AnalogueGain'' = None"
  using exposure_resolution [of MANUAL_SETTINGS]
    exposure_resolution [of "MANUAL_SETTINGS\<lparr>exposure_time := None\<rparr>"]
  by (simp add: MANUAL_SETTINGS_def)

text \<open>The lines a run has printed, as a monitor.\<close>

fun printed :: "string set \<Rightarrow> event \<Rightarrow> string set option" where
  "printed S (Print l) = Some (insert l S)"
| "printed S _ = Some S"

definition calm :: "tick \<Rightarrow> bool" where
  "calm t = (raised t = None)"

lemma can_raise_calm [simp]: "\<not> can_raise calm e"
  by (auto simp: can_raise_def calm_def)

lemma print_lines_printed:
  assumes "\<And>S'. S \<union> set ls \<subseteq> S' \<Longrightarrow> Q (Return ()) S'"
    "\<And>e S'. can_raise E e \<Longrightarrow> S \<subseteq> S' \<Longrightarrow> Q (Raise e) S'"
    "\<And>S'. S \<subseteq> S' \<Longrightarrow> Q Running S'"
  shows "steps E printed S (print_lines ls) Q"
  using assms
proof (induction ls arbitrary: S)
  case Nil
  then show ?case by (simp add: steps_return)
next
  case (Cons l ls)
  have ih: "steps E printed (insert l S) (print_lines ls) Q"
  proof (rule Cons.IH)
    show "Q (Return ()) S'" if "insert l S \<union> set ls \<subseteq> S'" for S'
      using that by (intro Cons.prems(1)) auto
    show "Q (Raise e) S'" if "can_raise E e" "insert l S \<subseteq> S'" for e S'
      using that by (intro Cons.prems(2)) auto
    show "Q Running S'" if "insert l S \<subseteq> S'" for S'
      using that by (intro Cons.prems(3)) auto
  qed
  have "steps E printed S (and_then (print l) (\<lambda>_. print_lines ls)) Q"
  proof (rule steps_and_then, rule steps_print [where s' = "insert l S"])
    show "printed S (Print l) = Some (insert l S)" by simp
    show "case Return () of Return x \<Rightarrow> steps E printed (insert l S) (print_lines ls) Q
            | Raise e \<Rightarrow> Q (Raise e) (insert l S) | Running \<Rightarrow> Q Running (insert l S)"
      using ih by simp
    show "case Raise e of Return x \<Rightarrow> steps E printed (insert l S) (print_lines ls) Q
            | Raise e \<Rightarrow> Q (Raise e) (insert l S) | Running \<Rightarrow> Q Running (insert l S)"
      if "can_raise E e" for e
      using that by (simp add: Cons.prems(2) subset_insertI)
    show "case Running of Return x \<Rightarrow> steps E printed S (print_lines ls) Q
            | Raise e \<Rightarrow> Q (Raise e) S | Running \<Rightarrow> Q Running S"
      by (simp add: Cons.prems(3))
  qed
  then show ?case by simp
qed

text \<open>The manual configuration prints the lines of the white-balance branch, and raises
  only what a call raises.\<close>

lemma configure_manual_printed:
  assumes ret: "\<And>S'. set (snd (handle_white_balance ms (fst (handle_exposure ms (base_controls ms)))))
                  \<subseteq> S' \<Longrightarrow> Q (Return ()) S'"
    and rai: "\<And>e S'. can_raise E e \<Longrightarrow> Q (Raise e) S'"
    and run: "\<And>S'. Q Running S'"
  shows "steps E printed S (configure_manual ms) Q"
  unfolding configure_manual_def create_still_configuration_def Let_def case_prod_beta
  by (rule steps_intros print_lines_printed | simp split del: if_split | rule ret rai run
      | blast)+


definition unrecognized_warning :: "string \<Rightarrow> string" where
  "unrecognized_warning wb_mode_str =
     ''[WARN] Unrecognized white_balance '' @ [CHR 0x27] @ wb_mode_str @ [CHR 0x27]
       @ '', defaulting to auto WB.''"

lemma unrecognized_lines:
  "map_of AWB_MODE_MAP (lower (white_balance ms)) = None \<Longrightarrow>
     snd (handle_white_balance ms controls) = [unrecognized_warning (lower (white_balance ms))]"
  by (simp add: handle_white_balance_def unrecognized_warning_def Let_def)

lemma configure_manual_warns:
  assumes un: "map_of AWB_MODE_MAP (lower (white_balance ms)) = None"
    and ret: "configure_manual ms w = (Return (), w')"
  shows "\<exists>evs. trace w' = trace w @ evs \<and>
           Print (unrecognized_warning (lower (white_balance ms))) \<in> set evs"
proof -
  let ?Q = "\<lambda>r S. r = Return () \<longrightarrow> unrecognized_warning (lower (white_balance ms)) \<in> S"
  have "steps any_tick printed {} (configure_manual ms) ?Q"
    by (rule configure_manual_printed) (simp_all add: unrecognized_lines [OF un])
  from stepsD2 [OF this env_ok_any ret] obtain evs S where
    tr: "trace w' = trace w @ evs" and rn: "run printed {} evs = Some S" and
    q: "unrecognized_warning (lower (white_balance ms)) \<in> S"
    by auto
  have "run printed S0 es = Some S1 \<Longrightarrow> l \<in> S1 \<Longrightarrow> l \<in> S0 \<or> Print l \<in> set es"
    for S0 S1 es l
  proof (induction es arbitrary: S0)
    case Nil
    then show ?case by simp
  next
    case (Cons e es)
    then show ?case by (cases e) (auto split: option.splits)
  qed
  from this [OF rn q] tr show ?thesis by auto
qed

lemma configure_manual_calm:
  assumes "env_ok calm w"
  shows "fst (configure_manual ms w) \<noteq> Raise e"
proof -
  have "steps calm printed {} (configure_manual ms) (\<lambda>r S. \<forall>e. r \<noteq> Raise e)"
    by (rule configure_manual_printed) simp_all
  from stepsD [OF this assms] show ?thesis by auto
qed

text \<open>
  Claim C2. In manual mode, for every configured white-balance string, by its lowercase
  form: \<open>auto\<close> gives \<open>AwbEnable = True\<close>; \<open>incandescent\<close>, \<open>fluorescent\<close>, \<open>daylight\<close>
  and \<open>cloudy\<close> give \<open>AwbEnable = False\<close> and \<open>AwbMode\<close> the member of that name; any
  other string gives \<open>AwbEnable = True\<close> (and no \<open>AwbMode\<close>), and a configuration
  that returns has printed the warning line. The configuration raises nothing of its
  own: where no call raises, it does not raise, whatever the string is.
\<close>

theorem white_balance_resolution:
  "(lower (white_balance ms) = ''auto'' \<longrightarrow>
      map_of (resolved_controls ms) ''AwbEnable'' = Some (VBool True) \<and>
      map_of (resolved_controls ms) ''AwbMode'' = None) \<and>
   (lower (white_balance ms) = ''incandescent'' \<longrightarrow>
      map_of (resolved_controls ms) ''AwbEnable'' = Some (VBool False) \<and>
      map_of (resolved_controls ms) ''AwbMode'' = Some (VAwbMode Incandescent)) \<and>
   (lower (white_balance ms) = ''fluorescent'' \<longrightarrow>
      map_of (resolved_controls ms) ''AwbEnable'' = Some (VBool False) \<and>
      map_of (resolved_controls ms) ''AwbMode'' = Some (VAwbMode Fluorescent)) \<and>
   (lower (white_balance ms) = ''daylight'' \<longrightarrow>
      map_of (resolved_controls ms) ''AwbEnable'' = Some (VBool False) \<and>
      map_of (resolved_controls ms) ''AwbMode'' = Some (VAwbMode Daylight)) \<and>
   (lower (white_balance ms) = ''cloudy'' \<longrightarrow>
      map_of (resolved_controls ms) ''AwbEnable'' = Some (VBool False) \<and>
      map_of (resolved_controls ms) ''AwbMode'' = Some (VAwbMode Cloudy)) \<and>
   (lower (white_balance ms) \<notin>
        {''auto'', ''incandescent'', ''fluorescent'', ''daylight'', ''cloudy''} \<longrightarrow>
      map_of (resolved_controls ms) ''AwbEnable'' = Some (VBool True) \<and>
      map_of (resolved_controls ms) ''AwbMode'' = None \<and>
      (\<forall>w w'. configure_manual ms w = (Return (), w') \<longrightarrow>
         (\<exists>evs. trace w' = trace w @ evs \<and>
            Print (unrecognized_warning (lower (white_balance ms))) \<in> set evs))) \<and>
   (\<forall>w e. env_ok calm w \<longrightarrow> fst (configure_manual ms w) \<noteq> Raise e)"
proof -
  have dict: "map_of (resolved_controls ms) ''AwbEnable'' =
      (if lower (white_balance ms) \<in> {''incandescent'', ''fluorescent'', ''daylight'', ''cloudy''}
       then Some (VBool False) else Some (VBool True))"
    "map_of (resolved_controls ms) ''AwbMode'' =
      (if lower (white_balance ms) = ''incandescent'' then Some (VAwbMode Incandescent)
       else if lower (white_balance ms) = ''fluorescent'' then Some (VAwbMode Fluorescent)
       else if lower (white_balance ms) = ''daylight'' then Some (VAwbMode Daylight)
       else if lower (white_balance ms) = ''cloudy'' then Some (VAwbMode Cloudy)
       else None)"
    by (simp_all add: resolved_controls_def map_of_handle_exposure map_of_handle_white_balance
        map_of_base_controls map_of_AWB_MODE_MAP split: option.split)
  have un: "map_of AWB_MODE_MAP (lower (white_balance ms)) = None"
    if "lower (white_balance ms) \<notin>
        {''auto'', ''incandescent'', ''fluorescent'', ''daylight'', ''cloudy''}"
    using that by (simp add: map_of_AWB_MODE_MAP)
  show ?thesis
    using configure_manual_warns [OF un] configure_manual_calm
    by (simp add: dict)
qed

definition bogus_settings :: manual_settings where
  "bogus_settings = MANUAL_SETTINGS\<lparr>exposure_time := None, white_balance := ''bogus''\<rparr>"

lemma lower_examples:
  "lower ''DayLight'' = ''daylight''" "lower ''bogus'' = ''bogus''"
  by code_simp+

lemma bogus_configure:
  "fst (configure_manual bogus_settings (fresh_world (returning 13))) = Return ()"
  by (simp add: run_eval configure_manual_def bogus_settings_def MANUAL_SETTINGS_def
      handle_exposure_def handle_white_balance_def lower_examples AWB_MODE_MAP_def
      manual_log_def)

theorem white_balance_resolution_witness:
  "lower (white_balance (MANUAL_SETTINGS\<lparr>white_balance := ''DayLight''\<rparr>)) = ''daylight'' \<and>
   map_of (resolved_controls (MANUAL_SETTINGS\<lparr>white_balance := ''DayLight''\<rparr>)) ''AwbEnable'' =
     Some (VBool False) \<and>
   map_of (resolved_controls (MANUAL_SETTINGS\<lparr>white_balance := ''DayLight''\<rparr>)) ''AwbMode'' =
     Some (VAwbMode Daylight) \<and>
   lower (white_balance bogus_settings) \<notin>
     {''auto'', ''incandescent'', ''fluorescent'', ''daylight'', ''cloudy''} \<and>
   map_of (resolved_controls bogus_settings) ''AeEnable'' = Some (VBool True) \<and>
   map_of (resolved_controls bogus_settings) ''AwbEnable'' = Some (VBool True) \<and>
   env_ok calm (fresh_world (returning 13)) \<and>
   fst (configure_manual bogus_settings (fresh_world (returning 13))) = Return () \<and>
   Print (unrecognized_warning ''bogus'') \<in>
     set (trace (snd (configure_manual bogus_settings (fresh_world (returning 13)))))"
proof -
  have a: "lower (white_balance (MANUAL_SETTINGS\<lparr>white_balance := ''DayLight''\<rparr>)) = ''daylight''"
    by (simp add: lower_examples)
  have b: "lower (white_balance bogus_settings) = ''bogus''"
    by (simp add: bogus_settings_def lower_examples)
  have c: "configure_manual bogus_settings (fresh_world (returning 13)) =
      (Return (), snd (configure_manual bogus_settings (fresh_world (returning 13))))"
    using bogus_configure by (simp add: prod_eq_iff)
  have d: "env_ok calm (fresh_world (returning 13))"
    by (simp add: env_ok_def calm_def fresh_world_def returning_def list_all_iff)
  have e: "map_of (resolved_controls bogus_settings) ''AeEnable'' = Some (VBool True)"
    by (simp add: resolved_controls_def map_of_handle_exposure map_of_handle_white_balance
        map_of_base_controls bogus_settings_def split: option.split)
  note t1 = white_balance_resolution [of "MANUAL_SETTINGS\<lparr>white_balance := ''DayLight''\<rparr>"]
  note t2 = white_balance_resolution [of bogus_settings]
  have "map_of (resolved_controls (MANUAL_SETTINGS\<lparr>white_balance := ''DayLight''\<rparr>)) ''AwbEnable'' =
     Some (VBool False) \<and>
   map_of (resolved_controls (MANUAL_SETTINGS\<lparr>white_balance := ''DayLight''\<rparr>)) ''AwbMode'' =
     Some (VAwbMode Daylight)"
    using t1 a by simp
  moreover have "map_of (resolved_controls bogus_settings) ''AwbEnable'' = Some (VBool True) \<and>
      (\<exists>evs. trace (snd (configure_manual bogus_settings (fresh_world (returning 13)))) =
         trace (fresh_world (returning 13)) @ evs \<and>
         Print (unrecognized_warning ''bogus'') \<in> set evs)"
    using t2 b c by simp
  ultimately show ?thesis
    using a b d e bogus_configure by (simp add: fresh_world_def)
qed

section \<open>How the controls reach the device\<close>

fun is_set_controls :: "event \<Rightarrow> bool" where
  "is_set_controls (SetControls _) = True"
| "is_set_controls _ = False"

text \<open>A monitor for the one \<^verbatim>\<open>set_controls\<close> call of the manual mode: the dictionary
  \<open>c\<close> is applied once, before the camera starts, and no other dictionary ever is.\<close>

datatype controls_phase = NotApplied | Applied | CameraStarted

fun controls_step :: "controls \<Rightarrow> controls_phase \<Rightarrow> event \<Rightarrow> controls_phase option" where
  "controls_step c NotApplied (SetControls k) = (if k = c then Some Applied else None)"
| "controls_step c _ (SetControls k) = None"
| "controls_step c Applied Start = Some CameraStarted"
| "controls_step c _ Start = None"
| "controls_step c s _ = Some s"

lemma controls_step_other [simp]:
  "\<not> is_set_controls e \<Longrightarrow> e \<noteq> Start \<Longrightarrow> controls_step c s e = Some s"
  by (cases s; cases e; simp)

text \<open>The \<^verbatim>\<open>set_controls\<close> and \<^verbatim>\<open>start\<close> calls a monitor state stands for.\<close>

fun applied :: "controls \<Rightarrow> controls_phase \<Rightarrow> event list" where
  "applied c NotApplied = []"
| "applied c Applied = [SetControls c]"
| "applied c CameraStarted = [SetControls c, Start]"

lemma controls_run_applied:
  "run (controls_step c) s evs = Some s' \<Longrightarrow>
     applied c s @ filter (\<lambda>e. is_set_controls e \<or> e = Start) evs = applied c s'"
proof (induction evs arbitrary: s)
  case Nil
  then show ?case by simp
next
  case (Cons e evs)
  then obtain s1 where st: "controls_step c s e = Some s1"
    and rn: "run (controls_step c) s1 evs = Some s'"
    by (auto split: option.splits)
  have step: "applied c s @ filter (\<lambda>e. is_set_controls e \<or> e = Start) [e] = applied c s1"
    using st by (cases s; cases e; auto split: if_splits)
  have "applied c s @ filter (\<lambda>e. is_set_controls e \<or> e = Start) (e # evs) =
        (applied c s @ filter (\<lambda>e. is_set_controls e \<or> e = Start) [e]) @
          filter (\<lambda>e. is_set_controls e \<or> e = Start) evs"
    by simp
  also have "\<dots> = applied c s1 @ filter (\<lambda>e. is_set_controls e \<or> e = Start) evs"
    by (simp only: step)
  also have "\<dots> = applied c s'" by (rule Cons.IH [OF rn])
  finally show ?case .
qed

lemma configure_manual_controls:
  assumes "Q (Return ()) Applied" "\<And>e s. Q (Raise e) s" "\<And>s. Q Running s"
  shows "steps E (controls_step (resolved_controls ms)) NotApplied (configure_manual ms) Q"
  unfolding configure_manual_def create_still_configuration_def Let_def case_prod_beta
  by (rule steps_intros steps_print_lines | simp add: assms resolved_controls_def split del: if_split)+

lemma create_output_directory_controls:
  assumes "\<And>dir. Q (Return dir) s" "\<And>e. Q (Raise e) s" "Q Running s"
  shows "steps E (controls_step c) s (create_output_directory base) Q"
  unfolding create_output_directory_def Let_def
  by (rule steps_intros | simp add: assms)+

lemma startup_manual_controls:
  "\<not> fully_auto_mode cfg \<Longrightarrow>
     steps E (controls_step (resolved_controls (manual cfg))) NotApplied (startup cfg)
       (\<lambda>r s. \<forall>dir. r = Return dir \<longrightarrow> s = CameraStarted)"
  unfolding startup_def
  by (rule steps_intros configure_manual_controls create_output_directory_controls
      | simp split del: if_split)+

lemma capture_iteration_controls:
  "steps E (controls_step c) s (capture_iteration cfg dir) (\<lambda>r s'. s' = s)"
  unfolding capture_iteration_def Let_def
  by (rule steps_intros | simp)+

lemma capture_session_controls:
  "steps E (controls_step c) s (capture_session cfg dir) (\<lambda>r s'. s' = s)"
  unfolding capture_session_def
proof (rule steps_try [where I = "\<lambda>s'. s' = s" and F = "\<lambda>r s'. s' = s"])
  show "steps E (controls_step c) s (try_body cfg dir) (\<lambda>r s1. s1 = s)"
    unfolding try_body_def
    by (rule steps_intros steps_capture_loop [where I = "\<lambda>s'. s' = s"]
        capture_iteration_controls | simp)+
  show "steps E (controls_step c) s1 interrupt_handler (\<lambda>r s2. s2 = s)" if "s1 = s" for s1
    unfolding interrupt_handler_def that by (rule steps_intros | simp)+
  show "steps E (controls_step c) s2 finally_block (\<lambda>r s'. s' = s)" if "s2 = s" for s2
    unfolding finally_block_def that by (rule steps_intros | simp)+
qed auto


lemma distinct_resolved_controls: "distinct (map fst (resolved_controls ms))"
  by (simp add: resolved_controls_def handle_exposure_def handle_white_balance_def Let_def
      distinct_update base_controls_def split: option.split)

lemma resolved_controls_structure:
  "map_of (resolved_controls ms) ''Brightness'' = Some (VInt (brightness ms)) \<and>
   map_of (resolved_controls ms) ''Contrast'' = Some (VInt (contrast ms)) \<and>
   map_of (resolved_controls ms) ''Saturation'' = Some (VInt (saturation ms)) \<and>
   map_of (resolved_controls ms) ''Sharpness'' = Some (VInt (sharpness ms)) \<and>
   map_of (resolved_controls ms) ''AeEnable'' \<noteq> None \<and>
   (map_of (resolved_controls ms) ''ExposureTime'' \<noteq> None) =
     (map_of (resolved_controls ms) ''AeEnable'' = Some (VBool False)) \<and>
   (map_of (resolved_controls ms) ''AnalogueGain'' \<noteq> None) =
     (map_of (resolved_controls ms) ''AeEnable'' = Some (VBool False)) \<and>
   map_of (resolved_controls ms) ''AwbEnable'' \<noteq> None \<and>
   (map_of (resolved_controls ms) ''AwbMode'' \<noteq> None) =
     (map_of (resolved_controls ms) ''AwbEnable'' = Some (VBool False))"
  by (simp add: resolved_controls_def map_of_handle_exposure map_of_handle_white_balance
      map_of_base_controls map_of_AWB_MODE_MAP split: option.split)

text \<open>
  Claim C10. In manual mode the resolved controls always hold the four quality keys and
  \<open>AeEnable\<close>; \<open>ExposureTime\<close> and \<open>AnalogueGain\<close> exactly when \<open>AeEnable\<close> is
  \<open>False\<close>; \<open>AwbEnable\<close>; \<open>AwbMode\<close> exactly when \<open>AwbEnable\<close> is \<open>False\<close>; every
  key once. In every run the \<^verbatim>\<open>set_controls\<close> and \<^verbatim>\<open>start\<close> calls are, in order,
  none, or one \<^verbatim>\<open>set_controls\<close> with the whole resolved dictionary, or that call
  followed by the one \<^verbatim>\<open>start\<close>: the dictionary is applied in a single call, after
  all branches are resolved and before the camera starts, and a run that completes its
  startup has applied it.
\<close>

theorem manual_controls_invariant:
  assumes man: "\<not> fully_auto_mode cfg" and mn: "main cfg w = (r, w')"
  shows "distinct (map fst (resolved_controls (manual cfg))) \<and>
     map_of (resolved_controls (manual cfg)) ''Brightness'' \<noteq> None \<and>
     map_of (resolved_controls (manual cfg)) ''Contrast'' \<noteq> None \<and>
     map_of (resolved_controls (manual cfg)) ''Saturation'' \<noteq> None \<and>
     map_of (resolved_controls (manual cfg)) ''Sharpness'' \<noteq> None \<and>
     map_of (resolved_controls (manual cfg)) ''AeEnable'' \<noteq> None \<and>
     (map_of (resolved_controls (manual cfg)) ''ExposureTime'' \<noteq> None) =
       (map_of (resolved_controls (manual cfg)) ''AeEnable'' = Some (VBool False)) \<and>
     (map_of (resolved_controls (manual cfg)) ''AnalogueGain'' \<noteq> None) =
       (map_of (resolved_controls (manual cfg)) ''AeEnable'' = Some (VBool False)) \<and>
     map_of (resolved_controls (manual cfg)) ''AwbEnable'' \<noteq> None \<and>
     (map_of (resolved_controls (manual cfg)) ''AwbMode'' \<noteq> None) =
       (map_of (resolved_controls (manual cfg)) ''AwbEnable'' = Some (VBool False)) \<and>
     (\<exists>evs. trace w' = trace w @ evs \<and>
        filter (\<lambda>e. is_set_controls e \<or> e = Start) evs \<in>
          {[], [SetControls (resolved_controls (manual cfg))],
           [SetControls (resolved_controls (manual cfg)), Start]} \<and>
        ((\<exists>dir w1. startup cfg w = (Return dir, w1)) \<longrightarrow>
           filter (\<lambda>e. is_set_controls e \<or> e = Start) evs =
             [SetControls (resolved_controls (manual cfg)), Start]))"
proof -
  let ?c = "resolved_controls (manual cfg)"
  let ?P = "\<lambda>e. is_set_controls e \<or> e = Start"
  obtain r0 w1 where st: "startup cfg w = (r0, w1)" by (cases "startup cfg w")
  from stepsD2 [OF startup_manual_controls [OF man] env_ok_any st] obtain evs0 s0 where
    t0: "trace w1 = trace w @ evs0" and r0: "run (controls_step ?c) NotApplied evs0 = Some s0"
    and q0: "\<forall>dir. r0 = Return dir \<longrightarrow> s0 = CameraStarted"
    by auto
  have tr: "\<exists>evs. trace w' = trace w @ evs \<and>
        filter ?P evs \<in> {[], [SetControls ?c], [SetControls ?c, Start]} \<and>
        ((\<exists>dir w1. startup cfg w = (Return dir, w1)) \<longrightarrow>
           filter ?P evs = [SetControls ?c, Start])"
  proof (cases "\<exists>dir. r0 = Return dir")
    case True
    then obtain dir where ret: "r0 = Return dir" by blast
    have cs: "capture_session cfg dir w1 = (r, w')"
      using main_after_startup [of cfg w dir w1] st ret mn by simp
    from stepsD2 [OF capture_session_controls env_ok_any cs] obtain evs1 where
      t1: "trace w' = trace w1 @ evs1"
      and r1: "run (controls_step ?c) CameraStarted evs1 = Some CameraStarted"
      by auto
    have "run (controls_step ?c) NotApplied (evs0 @ evs1) = Some CameraStarted"
      using r0 r1 q0 ret by (simp add: run_append)
    from controls_run_applied [OF this]
    have "filter ?P (evs0 @ evs1) = [SetControls ?c, Start]" by simp
    moreover have "trace w' = trace w @ (evs0 @ evs1)" using t0 t1 by simp
    ultimately show ?thesis by blast
  next
    case False
    then have "main cfg w = (case r0 of Raise e \<Rightarrow> (Raise e, w1) | _ \<Rightarrow> (Running, w1))"
      using main_startup_not_returned [OF st] by blast
    then have w': "w' = w1" using mn by (cases r0) auto
    have "filter ?P evs0 = applied ?c s0" using controls_run_applied [OF r0] by simp
    then have "filter ?P evs0 \<in> {[], [SetControls ?c], [SetControls ?c, Start]}"
      by (cases s0) simp_all
    moreover have "\<not> (\<exists>dir w1. startup cfg w = (Return dir, w1))" using st False by simp
    ultimately show ?thesis using t0 w' by blast
  qed
  note s = resolved_controls_structure [of "manual cfg"]
  have keys: "map_of ?c ''Brightness'' \<noteq> None" "map_of ?c ''Contrast'' \<noteq> None"
    "map_of ?c ''Saturation'' \<noteq> None" "map_of ?c ''Sharpness'' \<noteq> None"
    using s by simp_all
  show ?thesis
    using keys s distinct_resolved_controls [of "manual cfg"] tr by blast
qed

definition manual_config :: config where
  "manual_config = module_config\<lparr>fully_auto_mode := False\<rparr>"

definition manual_world :: world where
  "manual_world = fresh_world (returning 22 @ [raising KeyboardInterrupt] @ returning 3)"

lemmas manual_eval =
  manual_config_def manual_world_def configure_manual_def MANUAL_SETTINGS_def
  handle_exposure_def handle_white_balance_def AWB_MODE_MAP_def manual_log_def
  base_controls_def

lemma lower_auto: "lower ''auto'' = ''auto''"
  by code_simp

lemma manual_run:
  "fst (startup manual_config manual_world) = Return example_directory"
  "fst (main manual_config manual_world) = Return ()"
  by (simp_all add: run_eval manual_eval lower_auto example_directory_def)

theorem manual_controls_invariant_witness:
  "\<not> fully_auto_mode manual_config \<and>
   fst (startup manual_config manual_world) = Return example_directory \<and>
   fst (main manual_config manual_world) = Return () \<and>
   resolved_controls (manual manual_config) =
     [(''Brightness'', VInt 50), (''Contrast'', VInt 0), (''Saturation'', VInt 0),
      (''Sharpness'', VInt 0), (''AeEnable'', VBool False), (''ExposureTime'', VInt 1000),
      (''AnalogueGain'', VFloat 1), (''AwbEnable'', VBool True)] \<and>
   (\<exists>evs. trace (snd (main manual_config manual_world)) = trace manual_world @ evs \<and>
      filter (\<lambda>e. is_set_controls e \<or> e = Start) evs =
        [SetControls (resolved_controls (manual manual_config)), Start])"
proof -
  have a: "\<not> fully_auto_mode manual_config"
    by (simp add: manual_config_def module_config_def)
  have b: "main manual_config manual_world = (Return (), snd (main manual_config manual_world))"
    using manual_run(2) by (simp add: prod_eq_iff)
  have c: "startup manual_config manual_world =
      (Return example_directory, snd (startup manual_config manual_world))"
    using manual_run(1) by (simp add: prod_eq_iff)
  have d: "resolved_controls (manual manual_config) =
     [(''Brightness'', VInt 50), (''Contrast'', VInt 0), (''Saturation'', VInt 0),
      (''Sharpness'', VInt 0), (''AeEnable'', VBool False), (''ExposureTime'', VInt 1000),
      (''AnalogueGain'', VFloat 1), (''AwbEnable'', VBool True)]"
    by (simp add: resolved_controls_def manual_eval module_config_def lower_auto)
  from manual_controls_invariant [OF a b] c have
    "\<exists>evs. trace (snd (main manual_config manual_world)) = trace manual_world @ evs \<and>
      filter (\<lambda>e. is_set_controls e \<or> e = Start) evs =
        [SetControls (resolved_controls (manual manual_config)), Start]"
    by blast
  then show ?thesis using a d manual_run by simp
qed

section \<open>The automatic mode\<close>

text \<open>The calls that configure the camera or set its controls.\<close>

fun is_configuration :: "event \<Rightarrow> bool" where
  "is_configuration (CreateStillConfiguration _) = True"
| "is_configuration (Configure _) = True"
| "is_configuration (SetControls _) = True"
| "is_configuration _ = False"

text \<open>A monitor for the configuration of the automatic mode: one still configuration of
  the given size is created, then passed to \<^verbatim>\<open>configure\<close>; nothing else configures the
  camera and no controls are set.\<close>

datatype auto_phase = Unconfigured | Created | AutoConfigured

fun auto_step :: "int \<times> int \<Rightarrow> auto_phase \<Rightarrow> event \<Rightarrow> auto_phase option" where
  "auto_step res Unconfigured (CreateStillConfiguration sz) =
     (if sz = res then Some Created else None)"
| "auto_step res Created (Configure c) =
     (if c = \<lparr>main_size = res\<rparr> then Some AutoConfigured else None)"
| "auto_step res s (CreateStillConfiguration _) = None"
| "auto_step res s (Configure _) = None"
| "auto_step res s (SetControls _) = None"
| "auto_step res s _ = Some s"

lemma auto_step_other [simp]: "\<not> is_configuration e \<Longrightarrow> auto_step res s e = Some s"
  by (cases s; cases e; simp)

fun configured :: "int \<times> int \<Rightarrow> auto_phase \<Rightarrow> event list" where
  "configured res Unconfigured = []"
| "configured res Created = [CreateStillConfiguration res]"
| "configured res AutoConfigured =
     [CreateStillConfiguration res, Configure \<lparr>main_size = res\<rparr>]"

lemma auto_run_configured:
  "run (auto_step res) s evs = Some s' \<Longrightarrow>
     configured res s @ filter is_configuration evs = configured res s'"
proof (induction evs arbitrary: s)
  case Nil
  then show ?case by simp
next
  case (Cons e evs)
  then obtain s1 where st: "auto_step res s e = Some s1"
    and rn: "run (auto_step res) s1 evs = Some s'"
    by (auto split: option.splits)
  have step: "configured res s @ filter is_configuration [e] = configured res s1"
    using st by (cases s; cases e; auto split: if_splits)
  have "configured res s @ filter is_configuration (e # evs) =
        (configured res s @ filter is_configuration [e]) @ filter is_configuration evs"
    by simp
  also have "\<dots> = configured res s1 @ filter is_configuration evs"
    by (simp only: step)
  also have "\<dots> = configured res s'" by (rule Cons.IH [OF rn])
  finally show ?case .
qed

text \<open>The calls of the capture session: console, clock, capture, sleep and stop.\<close>

fun session_event :: "event \<Rightarrow> bool" where
  "session_event (Print _) = True"
| "session_event (DatetimeNow _) = True"
| "session_event (CaptureFile _) = True"
| "session_event (Sleep _) = True"
| "session_event Stop = True"
| "session_event _ = False"

lemma capture_session_passes:
  assumes pass: "\<And>e. session_event e \<Longrightarrow> \<delta> s e = Some s"
  shows "steps E \<delta> s (capture_session cfg dir) (\<lambda>r s'. s' = s)"
  unfolding capture_session_def
proof (rule steps_try [where I = "\<lambda>s'. s' = s" and F = "\<lambda>r s'. s' = s"])
  have it: "steps E \<delta> s (capture_iteration cfg dir) (\<lambda>r s'. s' = s)"
    unfolding capture_iteration_def Let_def
    by (rule steps_intros | simp add: pass)+
  show "steps E \<delta> s (try_body cfg dir) (\<lambda>r s1. s1 = s)"
    unfolding try_body_def
    by (rule steps_intros steps_capture_loop [where I = "\<lambda>s'. s' = s"] it
        | simp add: pass)+
  show "steps E \<delta> s1 interrupt_handler (\<lambda>r s2. s2 = s)" if "s1 = s" for s1
    unfolding interrupt_handler_def that by (rule steps_intros | simp add: pass)+
  show "steps E \<delta> s2 finally_block (\<lambda>r s'. s' = s)" if "s2 = s" for s2
    unfolding finally_block_def that by (rule steps_intros | simp add: pass)+
qed auto

lemma startup_auto:
  "fully_auto_mode cfg \<Longrightarrow>
     steps E (auto_step (auto_resolution (auto cfg))) Unconfigured (startup cfg)
       (\<lambda>r s. \<forall>dir. r = Return dir \<longrightarrow> s = AutoConfigured)"
  unfolding startup_def configure_auto_def create_still_configuration_def
    create_output_directory_def Let_def
  by (rule steps_intros steps_print_lines | simp split del: if_split)+

text \<open>
  Claim C8. In fully automatic mode the calls of a run that configure the camera are, in
  order, none, or the creation of a still configuration of the configured resolution,
  or that creation followed by the one \<^verbatim>\<open>configure\<close> call with it; there is no
  \<^verbatim>\<open>set_controls\<close> call in the run, and a run that completes its startup has made
  both calls.
\<close>

theorem auto_mode_configuration:
  assumes am: "fully_auto_mode cfg" and mn: "main cfg w = (r, w')"
  shows "\<exists>evs. trace w' = trace w @ evs \<and>
           filter is_configuration evs \<in>
             {[], [CreateStillConfiguration (auto_resolution (auto cfg))],
              [CreateStillConfiguration (auto_resolution (auto cfg)),
               Configure \<lparr>main_size = auto_resolution (auto cfg)\<rparr>]} \<and>
           (\<forall>k. SetControls k \<notin> set evs) \<and>
           ((\<exists>dir w1. startup cfg w = (Return dir, w1)) \<longrightarrow>
              filter is_configuration evs =
                [CreateStillConfiguration (auto_resolution (auto cfg)),
                 Configure \<lparr>main_size = auto_resolution (auto cfg)\<rparr>])"
proof -
  let ?res = "auto_resolution (auto cfg)"
  obtain r0 w1 where st: "startup cfg w = (r0, w1)" by (cases "startup cfg w")
  from stepsD2 [OF startup_auto [OF am] env_ok_any st] obtain evs0 s0 where
    t0: "trace w1 = trace w @ evs0" and r0: "run (auto_step ?res) Unconfigured evs0 = Some s0"
    and q0: "\<forall>dir. r0 = Return dir \<longrightarrow> s0 = AutoConfigured"
    by auto
  have none: "\<forall>k. SetControls k \<notin> set evs"
    if "filter is_configuration evs \<in>
             {[], [CreateStillConfiguration ?res],
              [CreateStillConfiguration ?res, Configure \<lparr>main_size = ?res\<rparr>]}" for evs
  proof
    fix k
    show "SetControls k \<notin> set evs"
    proof
      assume mem: "SetControls k \<in> set evs"
      have kept: "SetControls k \<in> set ys" if "filter is_configuration evs = ys" for ys
        using that mem by auto
      from \<open>filter is_configuration evs \<in> _\<close> consider
        "filter is_configuration evs = []"
        | "filter is_configuration evs = [CreateStillConfiguration ?res]"
        | "filter is_configuration evs =
            [CreateStillConfiguration ?res, Configure \<lparr>main_size = ?res\<rparr>]"
        by blast
      then show False
      proof cases
        case 1
        from kept [OF 1] show False by simp
      next
        case 2
        from kept [OF 2] show False by simp
      next
        case 3
        from kept [OF 3] show False by simp
      qed
    qed
  qed
  show ?thesis
  proof (cases "\<exists>dir. r0 = Return dir")
    case True
    then obtain dir where ret: "r0 = Return dir" by blast
    have cs: "capture_session cfg dir w1 = (r, w')"
      using main_after_startup [of cfg w dir w1] st ret mn by simp
    have "steps any_tick (auto_step ?res) AutoConfigured (capture_session cfg dir)
            (\<lambda>r s'. s' = AutoConfigured)"
    proof (rule capture_session_passes)
      show "auto_step ?res AutoConfigured e = Some AutoConfigured" if "session_event e" for e
        using that by (cases e) simp_all
    qed
    from stepsD2 [OF this env_ok_any cs] obtain evs1 where
      t1: "trace w' = trace w1 @ evs1"
      and r1: "run (auto_step ?res) AutoConfigured evs1 = Some AutoConfigured"
      by auto
    have "run (auto_step ?res) Unconfigured (evs0 @ evs1) = Some AutoConfigured"
      using r0 r1 q0 ret by (simp add: run_append)
    from auto_run_configured [OF this]
    have f: "filter is_configuration (evs0 @ evs1) =
        [CreateStillConfiguration ?res, Configure \<lparr>main_size = ?res\<rparr>]" by simp
    moreover have "trace w' = trace w @ (evs0 @ evs1)" using t0 t1 by simp
    moreover have "\<forall>k. SetControls k \<notin> set (evs0 @ evs1)" using f by (intro none) simp
    ultimately show ?thesis by blast
  next
    case False
    then have "main cfg w = (case r0 of Raise e \<Rightarrow> (Raise e, w1) | _ \<Rightarrow> (Running, w1))"
      using main_startup_not_returned [OF st] by blast
    then have w': "w' = w1" using mn by (cases r0) auto
    have "filter is_configuration evs0 = configured ?res s0"
      using auto_run_configured [OF r0] by simp
    then have f: "filter is_configuration evs0 \<in>
             {[], [CreateStillConfiguration ?res],
              [CreateStillConfiguration ?res, Configure \<lparr>main_size = ?res\<rparr>]}"
      by (cases s0) simp_all
    moreover have "\<not> (\<exists>dir w1. startup cfg w = (Return dir, w1))" using st False by simp
    ultimately show ?thesis using t0 w' none [OF f] by blast
  qed
qed

theorem auto_mode_configuration_witness:
  "fully_auto_mode module_config \<and>
   fst (startup module_config interrupted_world) = Return example_directory \<and>
   fst (main module_config interrupted_world) = Return () \<and>
   (\<exists>evs. trace (snd (main module_config interrupted_world)) = trace interrupted_world @ evs \<and>
      filter is_configuration evs =
        [CreateStillConfiguration (1920, 1080), Configure \<lparr>main_size = (1920, 1080)\<rparr>] \<and>
      (\<forall>k. SetControls k \<notin> set evs))"
proof -
  have a: "fully_auto_mode module_config"
    by (simp add: module_config_def FULLY_AUTO_MODE_def)
  have b: "main module_config interrupted_world =
      (Return (), snd (main module_config interrupted_world))"
    using interrupted_main by (simp add: prod_eq_iff)
  have c: "startup module_config interrupted_world =
      (Return example_directory, snd (startup module_config interrupted_world))"
    using interrupted_startup by (simp add: prod_eq_iff)
  have d: "auto_resolution (auto module_config) = (1920, 1080)"
    by (simp add: module_config_def AUTO_SETTINGS_def)
  from auto_mode_configuration [OF a b] c d show ?thesis
    using a interrupted_startup interrupted_main by auto
qed

section \<open>Names of directories and files\<close>

lemma is_digit_digit_char [simp]: "is_digit (digit_char n)"
proof -
  have "n mod 10 < 10" by simp
  then have "48 + n mod 10 < 256" by linarith
  then show ?thesis by (simp add: is_digit_def digit_char_def)
qed

lemma dec_digits: "list_all is_digit (dec n)"
  by (induction n rule: dec.induct) (subst dec.simps, simp)

lemma length_dec_small: "n < 10 \<Longrightarrow> length (dec n) = 1"
  by (subst dec.simps) simp

lemma length_dec_step: "10 \<le> n \<Longrightarrow> length (dec n) = Suc (length (dec (n div 10)))"
  by (subst dec.simps) simp

lemma length_dec_two: "10 \<le> n \<Longrightarrow> n < 100 \<Longrightarrow> length (dec n) = 2"
  by (simp add: length_dec_step length_dec_small)

lemma length_dec_four: "1000 \<le> n \<Longrightarrow> n \<le> 9999 \<Longrightarrow> length (dec n) = 4"
  by (simp add: length_dec_step length_dec_small)

lemma length_pad2: "n < 100 \<Longrightarrow> length (pad2 n) = 2"
  by (simp add: pad2_def length_dec_small length_dec_two)

lemma pad2_digits: "list_all is_digit (pad2 n)"
  by (simp add: pad2_def dec_digits is_digit_def)

lemma matches_format_append:
  "length p = length s \<Longrightarrow>
     matches_format (p @ p') (s @ s') = (matches_format p s \<and> matches_format p' s')"
  by (induction p s rule: matches_format.induct) auto

lemma matches_digits:
  "list_all is_digit s \<Longrightarrow> length p = length s \<Longrightarrow> set p \<subseteq> set ''YMDHS'' \<Longrightarrow>
     matches_format p s"
  by (induction p s rule: matches_format.induct) auto

text \<open>The two formats, written out.\<close>

lemma strftime_directory:
  "strftime ''%Y%m%d_%H%M%S'' d =
     dec (year d) @ pad2 (month d) @ pad2 (day d) @ ''_'' @ pad2 (hour d) @ pad2 (minute d)
       @ pad2 (second d)"
  by (simp add: strftime.simps directive_def)

lemma strftime_image:
  "strftime ''image_%Y%m%d_%H%M%S.jpg'' d =
     ''image_'' @ strftime ''%Y%m%d_%H%M%S'' d @ ''.jpg''"
  by (simp add: strftime.simps directive_def)

definition reading_ok :: "datetime \<Rightarrow> bool" where
  "reading_ok d = (wf_datetime d \<and> 1000 \<le> year d)"

lemma directory_format:
  assumes "reading_ok d"
  shows "matches_format ''YYYYMMDD_HHMMSS'' (strftime ''%Y%m%d_%H%M%S'' d)"
proof -
  have y: "matches_format ''YYYY'' (dec (year d))"
    using assms by (intro matches_digits dec_digits) (simp_all add: reading_ok_def wf_datetime_def length_dec_four)
  have two: "matches_format [a, b] (pad2 n)" if "n < 100" "a \<in> set ''YMDHS''" "b \<in> set ''YMDHS''"
    for a b n
    using that by (intro matches_digits pad2_digits) (simp_all add: length_pad2)
  have f: "month d < 100" "day d < 100" "hour d < 100" "minute d < 100" "second d < 100"
    using assms by (simp_all add: reading_ok_def wf_datetime_def)
  have "matches_format (''YYYY'' @ ''MM'' @ ''DD'' @ ''_'' @ ''HH'' @ ''MM'' @ ''SS'')
      (dec (year d) @ pad2 (month d) @ pad2 (day d) @ ''_'' @ pad2 (hour d) @ pad2 (minute d)
       @ pad2 (second d))"
    using y two f assms
    by (simp only: matches_format_append length_pad2 length_dec_four reading_ok_def
        wf_datetime_def list.size matches_format.simps)
      (simp add: length_dec_four length_pad2 matches_format_append)
  then show ?thesis by (simp add: strftime_directory)
qed


lemma image_format:
  assumes "reading_ok d"
  shows "matches_format ''image_YYYYMMDD_HHMMSS.jpg'' (strftime ''image_%Y%m%d_%H%M%S.jpg'' d)"
proof -
  let ?ts = "strftime ''%Y%m%d_%H%M%S'' d"
  have m: "matches_format ''YYYYMMDD_HHMMSS'' ?ts" by (rule directory_format [OF assms])
  have l: "length ''YYYYMMDD_HHMMSS'' = length ?ts"
    using assms
    by (simp add: strftime_directory length_dec_four length_pad2 reading_ok_def wf_datetime_def)
  have "matches_format (''image_'' @ ''YYYYMMDD_HHMMSS'' @ ''.jpg'') (''image_'' @ ?ts @ ''.jpg'')"
    using m by (simp only: matches_format_append [OF l] matches_format_append [of "''image_''" "''image_''"])
      simp
  then show ?thesis by (simp add: strftime_image)
qed

lemma matches_format_length: "matches_format p s \<Longrightarrow> length s = length p"
  by (induction p s rule: matches_format.induct) auto

lemma matches_no_slash:
  "matches_format p s \<Longrightarrow> CHR ''/'' \<notin> set p \<Longrightarrow> CHR ''/'' \<notin> set s"
  by (induction p s rule: matches_format.induct) (auto simp: is_digit_def split: if_splits)

lemma directory_no_slash:
  assumes "matches_format ''YYYYMMDD_HHMMSS'' ts"
  shows "ts \<noteq> [] \<and> hd ts \<noteq> CHR ''/'' \<and> last ts \<noteq> CHR ''/'' \<and> CHR ''/'' \<notin> set ts"
proof -
  have n: "CHR ''/'' \<notin> set ts" using matches_no_slash [OF assms] by simp
  have e: "ts \<noteq> []" using matches_format_length [OF assms] by auto
  show ?thesis using n e hd_in_set [OF e] last_in_set [OF e] by metis
qed

text \<open>The paths the claims speak of: \<open>base/YYYYMMDD_HHMMSS\<close> for the session directory,
  \<open>directory/image_YYYYMMDD_HHMMSS.jpg\<close> for a captured file.\<close>

definition session_dir_ok :: "string \<Rightarrow> string \<Rightarrow> bool" where
  "session_dir_ok base p =
     (take (length base + 1) p = base @ ''/'' \<and>
      matches_format ''YYYYMMDD_HHMMSS'' (drop (length base + 1) p))"

definition capture_path_ok :: "string \<Rightarrow> string \<Rightarrow> bool" where
  "capture_path_ok directory p =
     (take (length directory + 1) p = directory @ ''/'' \<and>
      matches_format ''image_YYYYMMDD_HHMMSS.jpg'' (drop (length directory + 1) p))"

lemma os_path_join_plain:
  "a \<noteq> [] \<Longrightarrow> last a \<noteq> CHR ''/'' \<Longrightarrow> b \<noteq> [] \<Longrightarrow> hd b \<noteq> CHR ''/'' \<Longrightarrow>
     os_path_join a b = a @ ''/'' @ b"
  by (simp add: os_path_join_def)

lemma session_dir_joined:
  assumes "base \<noteq> []" "last base \<noteq> CHR ''/''" "reading_ok d"
  shows "session_dir_ok base (os_path_join base (strftime ''%Y%m%d_%H%M%S'' d))"
proof -
  note m = directory_format [OF assms(3)]
  have "os_path_join base (strftime ''%Y%m%d_%H%M%S'' d) =
          base @ ''/'' @ strftime ''%Y%m%d_%H%M%S'' d"
    using assms(1,2) directory_no_slash [OF m] by (intro os_path_join_plain) simp_all
  then show ?thesis using m by (simp add: session_dir_ok_def)
qed

lemma session_dir_shape:
  assumes "session_dir_ok base p"
  shows "p = base @ ''/'' @ drop (length base + 1) p \<and> p \<noteq> [] \<and> last p \<noteq> CHR ''/''"
proof -
  let ?ts = "drop (length base + 1) p"
  have m: "matches_format ''YYYYMMDD_HHMMSS'' ?ts" using assms by (simp add: session_dir_ok_def)
  have t: "take (length base + 1) p = base @ ''/''"
    using assms by (simp add: session_dir_ok_def)
  have eq: "p = base @ ''/'' @ ?ts"
    using append_take_drop_id [of "length base + 1" p] unfolding t by simp
  have "last p = last ?ts" using directory_no_slash [OF m] by (subst eq) simp
  then show ?thesis using eq directory_no_slash [OF m] by auto
qed

lemma capture_path_joined:
  assumes "session_dir_ok base directory" "reading_ok d"
  shows "capture_path_ok directory
           (os_path_join directory (strftime ''image_%Y%m%d_%H%M%S.jpg'' d))"
proof -
  note m = image_format [OF assms(2)]
  have "strftime ''image_%Y%m%d_%H%M%S.jpg'' d \<noteq> [] \<and>
        hd (strftime ''image_%Y%m%d_%H%M%S.jpg'' d) \<noteq> CHR ''/''"
    by (simp add: strftime_image)
  then have "os_path_join directory (strftime ''image_%Y%m%d_%H%M%S.jpg'' d) =
          directory @ ''/'' @ strftime ''image_%Y%m%d_%H%M%S.jpg'' d"
    using session_dir_shape [OF assms(1)] by (intro os_path_join_plain) simp_all
  then show ?thesis using m by (simp add: capture_path_ok_def)
qed

text \<open>A monitor for the names: the one directory that is made is a session directory
  under the base path, and every capture goes to an image file in that directory.\<close>

fun naming_step :: "string \<Rightarrow> string option \<Rightarrow> event \<Rightarrow> string option option" where
  "naming_step base None (MakeDirs p) = (if session_dir_ok base p then Some (Some p) else None)"
| "naming_step base (Some d) (MakeDirs p) = None"
| "naming_step base None (CaptureFile p) = None"
| "naming_step base (Some d) (CaptureFile p) =
     (if capture_path_ok d p then Some (Some d) else None)"
| "naming_step base s _ = Some s"

fun is_path_event :: "event \<Rightarrow> bool" where
  "is_path_event (MakeDirs _) = True"
| "is_path_event (CaptureFile _) = True"
| "is_path_event _ = False"

lemma naming_step_other [simp]: "\<not> is_path_event e \<Longrightarrow> naming_step base s e = Some s"
  by (cases s; cases e; simp)

lemma naming_run_paths:
  "run (naming_step base) s evs = Some s' \<Longrightarrow>
     (s \<noteq> None \<longrightarrow> s' = s) \<and>
     (\<forall>p. MakeDirs p \<in> set evs \<longrightarrow> s = None \<and> s' = Some p \<and> session_dir_ok base p) \<and>
     (\<forall>p. CaptureFile p \<in> set evs \<longrightarrow> (\<exists>d. s' = Some d \<and> capture_path_ok d p))"
proof (induction evs arbitrary: s)
  case Nil
  then show ?case by simp
next
  case (Cons e evs)
  then obtain s1 where st: "naming_step base s e = Some s1"
    and rn: "run (naming_step base) s1 evs = Some s'"
    by (auto split: option.splits)
  note ih = Cons.IH [OF rn]
  have step: "(s \<noteq> None \<longrightarrow> s1 = s) \<and>
      (\<forall>p. e = MakeDirs p \<longrightarrow> s = None \<and> s1 = Some p \<and> session_dir_ok base p) \<and>
      (\<forall>p. e = CaptureFile p \<longrightarrow> (\<exists>d. s1 = Some d \<and> capture_path_ok d p))"
    using st by (cases s; cases e; auto split: if_splits)
  show ?case using ih step by (auto; metis option.distinct(1) option.inject)
qed

definition reading_tick :: "tick \<Rightarrow> bool" where
  "reading_tick t = reading_ok (clock t)"

lemma can_read_reading [simp]: "can_read reading_tick d \<Longrightarrow> reading_ok d"
  by (auto simp: can_read_def reading_tick_def)

lemma capture_session_keeps:
  assumes pass: "\<And>e. session_event e \<Longrightarrow> \<forall>p. e \<noteq> CaptureFile p \<Longrightarrow> \<delta> s e = Some s"
    and cap: "\<And>d. can_read E d \<Longrightarrow>
      \<delta> s (CaptureFile (os_path_join dir (strftime ''image_%Y%m%d_%H%M%S.jpg'' d))) = Some s"
  shows "steps E \<delta> s (capture_session cfg dir) (\<lambda>r s'. s' = s)"
  unfolding capture_session_def
proof (rule steps_try [where I = "\<lambda>s'. s' = s" and F = "\<lambda>r s'. s' = s"])
  have it: "steps E \<delta> s (capture_iteration cfg dir) (\<lambda>r s'. s' = s)"
    unfolding capture_iteration_def Let_def
    by (rule steps_intros | simp add: pass cap)+
  show "steps E \<delta> s (try_body cfg dir) (\<lambda>r s1. s1 = s)"
    unfolding try_body_def
    by (rule steps_intros steps_capture_loop [where I = "\<lambda>s'. s' = s"] it
        | simp add: pass)+
  show "steps E \<delta> s1 interrupt_handler (\<lambda>r s2. s2 = s)" if "s1 = s" for s1
    unfolding interrupt_handler_def that by (rule steps_intros | simp add: pass)+
  show "steps E \<delta> s2 finally_block (\<lambda>r s'. s' = s)" if "s2 = s" for s2
    unfolding finally_block_def that by (rule steps_intros | simp add: pass)+
qed auto

lemma create_output_directory_naming:
  assumes base: "base \<noteq> []" "last base \<noteq> CHR ''/''"
    and ret: "\<And>dir. session_dir_ok base dir \<Longrightarrow> Q (Return dir) (Some dir)"
    and rai: "\<And>e s. Q (Raise e) s" and run: "\<And>s. Q Running s"
  shows "steps reading_tick (naming_step base) None (create_output_directory base) Q"
  unfolding create_output_directory_def Let_def
  by (rule steps_intros | simp add: session_dir_joined base ret rai run)+

lemma startup_naming:
  assumes base: "output_base_path cfg \<noteq> []" "last (output_base_path cfg) \<noteq> CHR ''/''"
  shows "steps reading_tick (naming_step (output_base_path cfg)) None (startup cfg)
       (\<lambda>r s. \<forall>dir. r = Return dir \<longrightarrow> s = Some dir \<and> session_dir_ok (output_base_path cfg) dir)"
  unfolding startup_def configure_auto_def configure_manual_def create_still_configuration_def
    Let_def case_prod_beta
  by (rule steps_intros steps_print_lines create_output_directory_naming base
      | simp split del: if_split)+

lemma capture_session_naming:
  assumes "session_dir_ok base dir"
  shows "steps reading_tick (naming_step base) (Some dir) (capture_session cfg dir)
           (\<lambda>r s'. s' = Some dir)"
proof (rule capture_session_keeps)
  show "naming_step base (Some dir) e = Some (Some dir)"
    if "session_event e" "\<forall>p. e \<noteq> CaptureFile p" for e
    using that by (cases e) simp_all
  show "naming_step base (Some dir)
          (CaptureFile (os_path_join dir (strftime ''image_%Y%m%d_%H%M%S.jpg'' d))) =
        Some (Some dir)" if "can_read reading_tick d" for d
    using that capture_path_joined [OF assms, of d] by simp
qed

lemma capture_path_shape:
  assumes "capture_path_ok directory p"
  shows "p = directory @ ''/'' @ drop (length directory + 1) p"
proof -
  have t: "take (length directory + 1) p = directory @ ''/''"
    using assms by (simp add: capture_path_ok_def)
  show ?thesis
    using append_take_drop_id [of "length directory + 1" p] unfolding t by simp
qed

text \<open>
  Claim C5. For every run whose base path is not empty and does not end with a
  separator (as the configured one), on a clock that reads four-digit years: the only
  directory made is \<open>base/ts\<close> with \<open>ts\<close> of the format \<open>YYYYMMDD_HHMMSS\<close>, and every
  captured file has the path \<open>base/ts/name\<close> with that \<open>ts\<close> and a \<open>name\<close> of the format
  \<open>image_YYYYMMDD_HHMMSS.jpg\<close>.
\<close>

theorem output_names:
  assumes base: "output_base_path cfg \<noteq> []" "last (output_base_path cfg) \<noteq> CHR ''/''"
    and env: "env_ok reading_tick w"
    and mn: "main cfg w = (r, w')"
  shows "\<exists>evs. trace w' = trace w @ evs \<and>
     (\<forall>p. MakeDirs p \<in> set evs \<longrightarrow>
        (\<exists>ts. p = output_base_path cfg @ ''/'' @ ts \<and>
           matches_format ''YYYYMMDD_HHMMSS'' ts)) \<and>
     (\<forall>p. CaptureFile p \<in> set evs \<longrightarrow>
        (\<exists>ts name. p = output_base_path cfg @ ''/'' @ ts @ ''/'' @ name \<and>
           matches_format ''YYYYMMDD_HHMMSS'' ts \<and>
           matches_format ''image_YYYYMMDD_HHMMSS.jpg'' name \<and>
           MakeDirs (output_base_path cfg @ ''/'' @ ts) \<in> set evs))"
proof -
  let ?base = "output_base_path cfg"
  obtain r0 w1 where st: "startup cfg w = (r0, w1)" by (cases "startup cfg w")
  from stepsD2 [OF startup_naming [OF base] env st] obtain evs0 s0 where
    e1: "env_ok reading_tick w1" and
    t0: "trace w1 = trace w @ evs0" and r0: "run (naming_step ?base) None evs0 = Some s0"
    and q0: "\<forall>dir. r0 = Return dir \<longrightarrow> s0 = Some dir \<and> session_dir_ok ?base dir"
    by auto
  have "\<exists>evs s. trace w' = trace w @ evs \<and> run (naming_step ?base) None evs = Some s"
  proof (cases "\<exists>dir. r0 = Return dir")
    case True
    then obtain dir where ret: "r0 = Return dir" by blast
    have cs: "capture_session cfg dir w1 = (r, w')"
      using main_after_startup [of cfg w dir w1] st ret mn by simp
    have sd: "session_dir_ok ?base dir" "s0 = Some dir" using q0 ret by simp_all
    from stepsD2 [OF capture_session_naming [OF sd(1)] e1 cs] obtain evs1 where
      t1: "trace w' = trace w1 @ evs1"
      and r1: "run (naming_step ?base) (Some dir) evs1 = Some (Some dir)"
      by auto
    have "run (naming_step ?base) None (evs0 @ evs1) = Some (Some dir)"
      using r0 r1 sd by (simp add: run_append)
    moreover have "trace w' = trace w @ (evs0 @ evs1)" using t0 t1 by simp
    ultimately show ?thesis by blast
  next
    case False
    then have "main cfg w = (case r0 of Raise e \<Rightarrow> (Raise e, w1) | _ \<Rightarrow> (Running, w1))"
      using main_startup_not_returned [OF st] by blast
    then have "w' = w1" using mn by (cases r0) auto
    then show ?thesis using t0 r0 by blast
  qed
  then obtain evs s where tr: "trace w' = trace w @ evs"
    and rn: "run (naming_step ?base) None evs = Some s" by blast
  note paths = naming_run_paths [OF rn]
  have mk: "\<exists>ts. p = ?base @ ''/'' @ ts \<and> matches_format ''YYYYMMDD_HHMMSS'' ts"
    if "MakeDirs p \<in> set evs" for p
  proof -
    have ok: "session_dir_ok ?base p" using paths that by blast
    show ?thesis
      using session_dir_shape [OF ok] ok by (auto simp: session_dir_ok_def)
  qed
  have cp: "\<exists>ts name. p = ?base @ ''/'' @ ts @ ''/'' @ name \<and>
           matches_format ''YYYYMMDD_HHMMSS'' ts \<and>
           matches_format ''image_YYYYMMDD_HHMMSS.jpg'' name \<and>
           MakeDirs (?base @ ''/'' @ ts) \<in> set evs"
    if c: "CaptureFile p \<in> set evs" for p
  proof -
    from paths c obtain d where d: "s = Some d" "capture_path_ok d p" by blast
    have "\<exists>q. MakeDirs q \<in> set evs"
    proof (rule ccontr)
      assume "\<not> (\<exists>q. MakeDirs q \<in> set evs)"
      then have none: "\<forall>q. MakeDirs q \<notin> set evs" by blast
      have "run (naming_step ?base) None es = Some s1 \<Longrightarrow> \<forall>q. MakeDirs q \<notin> set es \<Longrightarrow>
              s1 = None \<and> (\<forall>q. CaptureFile q \<notin> set es)" for es s1
      proof (induction es)
        case Nil
        then show ?case by simp
      next
        case (Cons e es)
        then show ?case by (cases e) (auto split: option.splits)
      qed
      from this [OF rn none] c show False by blast
    qed
    then obtain q where q: "MakeDirs q \<in> set evs" by blast
    then have qd: "s = Some q" "session_dir_ok ?base q" using paths by blast+
    then have dq: "d = q" using d by simp
    let ?ts = "drop (length ?base + 1) q" and ?name = "drop (length d + 1) p"
    have "q = ?base @ ''/'' @ ?ts" using session_dir_shape [OF qd(2)] by simp
    moreover have "p = d @ ''/'' @ ?name" by (rule capture_path_shape [OF d(2)])
    ultimately have "p = ?base @ ''/'' @ ?ts @ ''/'' @ ?name"
      using dq by (metis append.assoc)
    moreover have "matches_format ''YYYYMMDD_HHMMSS'' ?ts"
      using qd(2) by (simp add: session_dir_ok_def)
    moreover have "matches_format ''image_YYYYMMDD_HHMMSS.jpg'' ?name"
      using d(2) by (simp add: capture_path_ok_def)
    moreover have "MakeDirs (?base @ ''/'' @ ?ts) \<in> set evs"
      using q \<open>q = ?base @ ''/'' @ ?ts\<close> by simp
    ultimately show ?thesis by blast
  qed
  show ?thesis using tr mk cp by blast
qed


text \<open>A run of the program as configured with one capture before the interrupt.\<close>

definition captured_world :: world where
  "captured_world = fresh_world (returning 16 @ [raising KeyboardInterrupt] @ returning 3)"

lemma captured_run:
  "fst (main module_config captured_world) = Return ()"
  "CaptureFile (example_directory @ ''/image_20250103_101500.jpg'') \<in>
     set (trace (snd (main module_config captured_world)))"
  by (simp_all add: run_eval captured_world_def example_directory_def)

lemma example_clock_ok: "reading_ok example_clock"
  by (simp add: reading_ok_def wf_datetime_def example_clock_def)

lemma captured_world_env: "env_ok reading_tick captured_world"
  by (simp add: env_ok_def reading_tick_def captured_world_def fresh_world_def returning_def
      raising_def example_clock_ok list_all_iff)

theorem output_names_witness:
  "output_base_path module_config \<noteq> [] \<and> last (output_base_path module_config) \<noteq> CHR ''/'' \<and>
   env_ok reading_tick captured_world \<and>
   fst (main module_config captured_world) = Return () \<and>
   CaptureFile (example_directory @ ''/image_20250103_101500.jpg'') \<in>
     set (trace (snd (main module_config captured_world))) \<and>
   (\<exists>ts name.
      example_directory @ ''/image_20250103_101500.jpg'' =
        output_base_path module_config @ ''/'' @ ts @ ''/'' @ name \<and>
      matches_format ''YYYYMMDD_HHMMSS'' ts \<and>
      matches_format ''image_YYYYMMDD_HHMMSS.jpg'' name \<and>
      MakeDirs (output_base_path module_config @ ''/'' @ ts) \<in>
        set (trace (snd (main module_config captured_world))))"
proof -
  have a: "output_base_path module_config \<noteq> []"
    and b: "last (output_base_path module_config) \<noteq> CHR ''/''"
    by (simp_all add: module_config_def OUTPUT_BASE_PATH_def)
  have c: "main module_config captured_world =
      (Return (), snd (main module_config captured_world))"
    using captured_run(1) by (simp add: prod_eq_iff)
  have t: "trace captured_world = []"
    by (simp add: captured_world_def fresh_world_def)
  from output_names [OF a b captured_world_env c] captured_run(2)
  have "\<exists>ts name.
      example_directory @ ''/image_20250103_101500.jpg'' =
        output_base_path module_config @ ''/'' @ ts @ ''/'' @ name \<and>
      matches_format ''YYYYMMDD_HHMMSS'' ts \<and>
      matches_format ''image_YYYYMMDD_HHMMSS.jpg'' name \<and>
      MakeDirs (output_base_path module_config @ ''/'' @ ts) \<in>
        set (trace (snd (main module_config captured_world)))"
    unfolding t by (metis append_Nil)
  then show ?thesis using a b captured_world_env captured_run by blast
qed

section \<open>Timestamps name their second\<close>










section \<open>The output directory\<close>

























section \<open>Names of the captured files within a session\<close>

































end
